theory Spec2Isabelle
  imports Main
begin

section \<open>The download worker of \<open>commands/download.py\<close>\<close>

subsection \<open>Data\<close>

text \<open>
  Bytes and text are lists of \<open>char\<close>. A \<open>pathlib.Path\<close> is the list of its components
  below the root; \<open>p / c\<close> appends the component \<open>c\<close>, and \<open>str(p)\<close> is \<open>path_str p\<close>.
\<close>

type_synonym bytes = string

type_synonym path = "string list"

definition path_str :: "path \<Rightarrow> string" where
  "path_str p = (if p = [] then ''/'' else concat (map (\<lambda>c. ''/'' @ c) p))"

text \<open>
  The exceptions of the program. \<open>HTTPError\<close> is what \<open>raise_for_status\<close> raises,
  \<open>ValueError\<close> what \<open>int(...)\<close> raises on a malformed header, \<open>ConnectionError\<close> what
  a request or the body iterator raise when the transfer breaks, \<open>OSError\<close> what the file
  system raises when it refuses a path (a name that is too long, a directory that is not
  there, a missing permission), \<open>MarkupError\<close> what \<open>console.print\<close> of the rich library
  raises on a text whose square brackets are not well-formed console markup; the others
  come from reading JSON values in the two clients. All of them are subclasses of
  \<open>Exception\<close>.
\<close>

datatype py_error =
    HTTPError nat
  | ValueError string
  | ConnectionError string
  | OSError string
  | MarkupError string
  | KeyError string
  | TypeError string
  | IndexError
  | JSONDecodeError

text \<open>\<open>VideoEntry = TypedDict("VideoEntry", {"title": str, "url": str, "poster": str})\<close>\<close>

record entry =
  title :: string
  url :: string
  poster :: string

text \<open>What the queue holds: a job, or the module's \<open>_sentinel\<close> object.\<close>

datatype item = Job entry | Sentinel

text \<open>
  A streamed response: the status code, the value of the \<open>Content-Length\<close> header
  (\<open>None\<close> when the header is absent), the chunks \<open>iter_content(chunk_size=8192)\<close>
  yields, and the exception the iterator raises after the last of them, if the transfer
  breaks.
\<close>

record response =
  status_code :: nat
  content_length :: "string option"
  body :: "bytes list"
  body_error :: "py_error option"

text \<open>One task of a \<open>rich.progress.Progress\<close>.\<close>

record task =
  filename :: string
  total :: int
  completed :: int
  started :: bool

text \<open>What the worker prints on the progress console.\<close>

datatype line = AlreadyDownloaded path | Error py_error

text \<open>
  Everything the worker threads share: the files on disk, the tasks of the download
  \<open>Progress\<close> and its next task id, the console, the completed count of the overall task,
  the queue, and the module's \<open>_stop_event\<close>.

  The event is set by the coordinator thread while the workers run. \<open>stop_after = Some n\<close>
  says that the next \<open>n\<close> calls of \<open>is_set()\<close> still find it clear and every later call
  finds it set; \<open>None\<close> says that it is never set. Once set it stays set.

  The disk holds the files \<open>fs\<close>. It may refuse a path: \<open>stat_error p = Some e\<close> says that
  \<open>p.exists()\<close> raises \<open>e\<close> (\<open>pathlib\<close> lets every \<open>OSError\<close> of \<open>stat\<close> through but the ones
  that say that there is no such file), \<open>open_error p = Some e\<close> that \<open>open(p, "wb")\<close>
  raises \<open>e\<close>, and \<open>write_error p = Some e\<close> that the disk does not take what is written to
  the file opened at \<open>p\<close>: \<open>f.write\<close> raises \<open>e\<close>.

  \<open>console.print\<close> takes its text as console markup and raises \<open>MarkupError\<close> on a closing
  tag such as \<open>[/]\<close> that closes nothing. The texts the worker prints hold the target path
  and the message of an exception, which quotes what the server sent. \<open>print_errors\<close> lists
  what the coming calls of \<open>console.print\<close> do, in order: \<open>None\<close> for a call that prints,
  \<open>Some e\<close> for a call that raises \<open>e\<close>; the calls after the end of the list print.

  \<open>bytes_written\<close> counts the bytes that the calls of \<open>f.write\<close> have written. The program
  has no such counter: it is there for the statements about what a run writes.
\<close>

record world =
  fs :: "path \<rightharpoonup> bytes"
  tasks :: "nat \<rightharpoonup> task"
  next_task :: nat
  console :: "line list"
  overall :: nat
  queue :: "item list"
  stop_after :: "nat option"
  stat_error :: "path \<Rightarrow> py_error option"
  open_error :: "path \<Rightarrow> py_error option"
  write_error :: "path \<Rightarrow> py_error option"
  print_errors :: "py_error option list"
  bytes_written :: nat

text \<open>
  The fields of a \<open>DownloaderWorker\<close> that are its own (\<open>output_path\<close> is \<open>self.output\<close>), and
  whether an exception has left its \<open>run\<close>: the thread is dead then, whatever \<open>is_running\<close>
  says.
\<close>

record worker =
  output_path :: path
  is_running :: bool
  task_id :: "nat option"
  crashed :: bool

subsection \<open>Helpers\<close>

text \<open>\<open>_stop_event.is_set()\<close>\<close>

definition is_set :: "world \<Rightarrow> bool \<times> world" where
  "is_set s =
     (case stop_after s of
        None \<Rightarrow> (False, s)
      | Some 0 \<Rightarrow> (True, s)
      | Some (Suc n) \<Rightarrow> (False, s\<lparr>stop_after := Some n\<rparr>))"

text \<open>
  Python's slice \<open>s[i:]\<close>: a negative \<open>i\<close> counts from the end, and the bounds are
  clipped.
\<close>

definition slice_from :: "'a list \<Rightarrow> int \<Rightarrow> 'a list" where
  "slice_from s i =
     (if i < 0 then drop (length s - nat (- i)) s else drop (nat i) s)"

text \<open>
  \<open>crop_string(s, N, ellipsis, end)\<close>. The default ellipsis is the one-character string
  U+2026, for which \<open>ellipsis_default\<close> stands.
\<close>

definition crop_string :: "'a list \<Rightarrow> int \<Rightarrow> 'a list \<Rightarrow> bool \<Rightarrow> 'a list" where
  "crop_string s N ellipsis end_flag =
     (if int (length s) > N - int (length ellipsis) then
        (if end_flag then slice_from s (- (N - int (length ellipsis))) @ ellipsis
         else ellipsis @ slice_from s (- (N - int (length ellipsis))))
      else s)"

definition ellipsis_default :: string where
  "ellipsis_default = [CHR 0x85]"

text \<open>
  \<open>int(x)\<close> on a header value (a string of Latin-1 characters, which is how the requests
  library decodes a header): surrounding whitespace is dropped, one sign is allowed, and
  the digits may be grouped by single underscores; anything else is a \<open>ValueError\<close>. The
  whitespace \<open>int\<close> drops is the characters 0x09 to 0x0D, the space, 0x85 and 0xA0. A
  number of more than 4300 digits (leading zeros count, underscores do not) is a
  \<open>ValueError\<close> as well: the limit \<open>sys.int_info.default_max_str_digits\<close> of CPython.
\<close>

definition is_space :: "char \<Rightarrow> bool" where
  "is_space c =
     (c \<in> set [CHR '' '', CHR 0x09, CHR 0x0A, CHR 0x0B, CHR 0x0C, CHR 0x0D, CHR 0x85, CHR 0xA0])"

definition is_digit :: "char \<Rightarrow> bool" where
  "is_digit c = (48 \<le> (of_char c :: nat) \<and> (of_char c :: nat) \<le> 57)"

definition digit_val :: "char \<Rightarrow> nat" where
  "digit_val c = of_char c - 48"

fun py_digits :: "nat \<Rightarrow> bool \<Rightarrow> string \<Rightarrow> nat option" where
  "py_digits acc prev [] = (if prev then Some acc else None)"
| "py_digits acc prev (c # cs) =
     (if is_digit c then py_digits (10 * acc + digit_val c) True cs
      else if c = CHR ''_'' \<and> prev then py_digits acc False cs
      else None)"

definition strip :: "string \<Rightarrow> string" where
  "strip s = rev (dropWhile is_space (rev (dropWhile is_space s)))"

definition max_str_digits :: nat where
  "max_str_digits = 4300"

definition py_int :: "string \<Rightarrow> py_error + int" where
  "py_int s =
     (if length (filter is_digit s) > max_str_digits then Inl (ValueError s)
      else
        (case strip s of
           [] \<Rightarrow> Inl (ValueError s)
         | c # cs \<Rightarrow>
             (if c = CHR ''-'' then
                (case py_digits 0 False cs of
                   None \<Rightarrow> Inl (ValueError s) | Some n \<Rightarrow> Inr (- int n))
              else if c = CHR ''+'' then
                (case py_digits 0 False cs of
                   None \<Rightarrow> Inl (ValueError s) | Some n \<Rightarrow> Inr (int n))
              else
                (case py_digits 0 False (c # cs) of
                   None \<Rightarrow> Inl (ValueError s) | Some n \<Rightarrow> Inr (int n)))))"

text \<open>\<open>int(r.headers.get("Content-Length", 0))\<close>\<close>

definition remote_size :: "response \<Rightarrow> py_error + int" where
  "remote_size r = (case content_length r of None \<Rightarrow> Inr 0 | Some v \<Rightarrow> py_int v)"

text \<open>
  \<open>r.raise_for_status()\<close> of the requests library: a status from 400 to 599 raises
  \<open>HTTPError\<close>, any other status returns.
\<close>

definition raise_for_status :: "response \<Rightarrow> py_error + unit" where
  "raise_for_status r =
     (if 400 \<le> status_code r \<and> status_code r < 600 then Inl (HTTPError (status_code r))
      else Inr ())"

text \<open>
  \<open>local_file.exists() and local_file.stat().st_size == remote_file_size\<close>, for a path
  whose \<open>stat\<close> does not raise.
\<close>

definition same_size :: "world \<Rightarrow> path \<Rightarrow> int \<Rightarrow> bool" where
  "same_size s p n = (case fs s p of None \<Rightarrow> False | Some b \<Rightarrow> int (length b) = n)"

text \<open>
  \<open>self.progress.console.print(...)\<close>: the call prints the line, or raises and prints
  nothing.
\<close>

definition console_print :: "line \<Rightarrow> world \<Rightarrow> py_error option \<times> world" where
  "console_print l s =
     (case print_errors s of
        [] \<Rightarrow> (None, s\<lparr>console := console s @ [l]\<rparr>)
      | None # rest \<Rightarrow> (None, s\<lparr>console := console s @ [l], print_errors := rest\<rparr>)
      | Some e # rest \<Rightarrow> (Some e, s\<lparr>print_errors := rest\<rparr>))"

text \<open>The calls on \<open>self.progress\<close>.\<close>

definition add_task :: "string \<Rightarrow> world \<Rightarrow> nat \<times> world" where
  "add_task name s =
     (next_task s,
      s\<lparr>tasks := (tasks s)(next_task s \<mapsto>
            \<lparr>filename = name, total = 100, completed = 0, started = False\<rparr>),
        next_task := Suc (next_task s)\<rparr>)"

definition update_total :: "nat \<Rightarrow> int \<Rightarrow> world \<Rightarrow> world" where
  "update_total t n s = s\<lparr>tasks := (tasks s)(t := map_option (\<lambda>k. k\<lparr>total := n\<rparr>) (tasks s t))\<rparr>"

definition start_task :: "nat \<Rightarrow> world \<Rightarrow> world" where
  "start_task t s = s\<lparr>tasks := (tasks s)(t := map_option (\<lambda>k. k\<lparr>started := True\<rparr>) (tasks s t))\<rparr>"

definition advance_task :: "nat \<Rightarrow> int \<Rightarrow> world \<Rightarrow> world" where
  "advance_task t n s =
     s\<lparr>tasks := (tasks s)(t := map_option (\<lambda>k. k\<lparr>completed := completed k + n\<rparr>) (tasks s t))\<rparr>"

definition remove_task :: "nat \<Rightarrow> world \<Rightarrow> world" where
  "remove_task t s = s\<lparr>tasks := (tasks s)(t := None)\<rparr>"

text \<open>
  \<open>open(local_file, "wb")\<close> raises, or truncates or creates the file; \<open>f.write(chunk)\<close>
  raises, or appends the chunk.
\<close>

definition truncate_file :: "path \<Rightarrow> world \<Rightarrow> world" where
  "truncate_file p s = s\<lparr>fs := (fs s)(p \<mapsto> [])\<rparr>"

definition open_wb :: "path \<Rightarrow> world \<Rightarrow> py_error + world" where
  "open_wb p s = (case open_error s p of Some e \<Rightarrow> Inl e | None \<Rightarrow> Inr (truncate_file p s))"

definition append_bytes :: "path \<Rightarrow> bytes \<Rightarrow> world \<Rightarrow> world" where
  "append_bytes p c s =
     s\<lparr>fs := (fs s)(p \<mapsto> (case fs s p of None \<Rightarrow> c | Some b \<Rightarrow> b @ c)),
       bytes_written := bytes_written s + length c\<rparr>"

definition write_chunk :: "path \<Rightarrow> bytes \<Rightarrow> world \<Rightarrow> py_error + world" where
  "write_chunk p c s =
     (case write_error s p of Some e \<Rightarrow> Inl e | None \<Rightarrow> Inr (append_bytes p c s))"

subsection \<open>\<open>DownloaderWorker.download_file\<close>\<close>

text \<open>
  The loop over \<open>r.iter_content(chunk_size=8192)\<close>: the iterator hands over the next
  chunk (or raises), the stop event is polled, and only then the task is advanced and the
  chunk written. A write that raises ends the loop, with the task already advanced.
\<close>

fun write_chunks :: "path \<Rightarrow> nat \<Rightarrow> bytes list \<Rightarrow> py_error option \<Rightarrow> world
    \<Rightarrow> (py_error + unit) \<times> world" where
  "write_chunks p t [] err s = (case err of None \<Rightarrow> (Inr (), s) | Some e \<Rightarrow> (Inl e, s))"
| "write_chunks p t (c # cs) err s =
     (case is_set s of
        (True, s1) \<Rightarrow> (Inr (), s1)
      | (False, s1) \<Rightarrow>
          (let s2 = advance_task t (int (length c)) s1 in
           (case write_chunk p c s2 of
              Inl e \<Rightarrow> (Inl e, s2)
            | Inr s3 \<Rightarrow> write_chunks p t cs err s3)))"

text \<open>
  The network is a function from the URL to what \<open>requests.get\<close> does: raise, or hand
  over a streamed response.
\<close>

type_synonym net = "string \<Rightarrow> py_error + response"

text \<open>
  \<open>download_file\<close>. The result is \<open>Inr ()\<close> when the method returns and \<open>Inl e\<close> when the
  exception \<open>e\<close> leaves it.
\<close>

definition download_file :: "net \<Rightarrow> string \<Rightarrow> string \<Rightarrow> path \<Rightarrow> worker \<times> world
    \<Rightarrow> (py_error + unit) \<times> worker \<times> world" where
  "download_file net u name local_file ws =
     (case ws of (w, s) \<Rightarrow>
      (case add_task name s of (t, s1) \<Rightarrow>
       (let w1 = w\<lparr>task_id := Some t\<rparr> in
        (case net u of
           Inl e \<Rightarrow> (Inl e, w1, s1)
         | Inr r \<Rightarrow>
            (case remote_size r of
               Inl e \<Rightarrow> (Inl e, w1, s1)
             | Inr remote_file_size \<Rightarrow>
                (case stat_error s1 local_file of
                   Some e \<Rightarrow> (Inl e, w1, s1)
                 | None \<Rightarrow>
                    (if same_size s1 local_file remote_file_size then
                       (case console_print (AlreadyDownloaded local_file) s1 of
                          (Some e, s2) \<Rightarrow> (Inl e, w1, s2)
                        | (None, s2) \<Rightarrow> (Inr (), w1, s2))
                     else
                       (let s2 = update_total t remote_file_size s1 in
                        (case raise_for_status r of
                           Inl e \<Rightarrow> (Inl e, w1, s2)
                         | Inr _ \<Rightarrow>
                            (case open_wb local_file s2 of
                               Inl e \<Rightarrow> (Inl e, w1, s2)
                             | Inr s3 \<Rightarrow>
                                (case write_chunks local_file t (body r) (body_error r)
                                        (start_task t s3) of
                                   (res, s4) \<Rightarrow> (res, w1, s4))))))))))))"

subsection \<open>\<open>DownloaderWorker.run\<close>\<close>

text \<open>
  The \<open>finally\<close> block of the loop body: remove the task of the download, if there is
  one, and advance the overall task by one if the worker is still running.
  \<open>queue.task_done()\<close> only lowers the count that \<open>queue.join()\<close> waits for; nothing reads
  it (the call of \<open>join\<close> is commented out), and after a \<open>get\<close> it is at least one, so the
  call does not raise. It has no state here.
\<close>

definition finally_block :: "worker \<times> world \<Rightarrow> worker \<times> world" where
  "finally_block ws =
     (case ws of (w, s) \<Rightarrow>
      (let s1 = (case task_id w of None \<Rightarrow> s | Some t \<Rightarrow> remove_task t s);
           s2 = (if is_running w then s1\<lparr>overall := Suc (overall s1)\<rparr> else s1)
       in (w, s2)))"

text \<open>
  How one pass through the body of \<open>while self.is_running\<close> ends: the stop event was found
  set at the loop entry; \<open>get()\<close> waits on the empty queue; the sentinel was taken;
  \<open>download_file\<close> returned; \<open>download_file\<close> raised and the handler ran to its end; or
  \<open>download_file\<close> raised and \<open>console.print\<close> in the handler raised in its turn. That
  last exception is raised inside the \<open>except\<close> block, so nothing catches it: the \<open>finally\<close>
  block runs and the exception leaves \<open>run\<close>.
\<close>

datatype outcome =
    Cancelled
  | Blocked
  | GotSentinel
  | Returned
  | Raised py_error
  | Escaped py_error

text \<open>
  One pass through the loop body. \<open>slugify\<close> is the function of the python-slugify
  package; its results contain letters, digits and hyphens only, so that
  \<open>f"{output_filename}.mp4"\<close> is one path component. On an empty queue \<open>get()\<close> waits
  for another thread to put an item: the pass is \<open>Blocked\<close>. In the handler
  \<open>self.is_running = False\<close> comes after \<open>console.print\<close>: when the print raises, the flag
  is still set when the \<open>finally\<close> block tests it.
\<close>

definition run_step :: "(string \<Rightarrow> string) \<Rightarrow> net \<Rightarrow> worker \<times> world
    \<Rightarrow> outcome \<times> worker \<times> world" where
  "run_step slugify net ws =
     (case ws of (w, s) \<Rightarrow>
      (let w1 = w\<lparr>task_id := None\<rparr> in
       (case is_set s of
          (True, s1) \<Rightarrow> (Cancelled, w1\<lparr>is_running := False\<rparr>, s1)
        | (False, s1) \<Rightarrow>
           (case queue s1 of
              [] \<Rightarrow> (Blocked, w1, s1)
            | Sentinel # q \<Rightarrow>
                (GotSentinel, finally_block (w1\<lparr>is_running := False\<rparr>, s1\<lparr>queue := q\<rparr>))
            | Job e # q \<Rightarrow>
               (let output_filename = slugify (title e);
                    output_video = output_path w1 @ [output_filename @ ''.mp4''];
                    vod_url = url e
                in (case download_file net vod_url
                          (crop_string (path_str output_video) 20 ellipsis_default False)
                          output_video (w1, s1\<lparr>queue := q\<rparr>) of
                      (Inr _, w2, s2) \<Rightarrow> (Returned, finally_block (w2, s2))
                    | (Inl err, w2, s2) \<Rightarrow>
                       (case console_print (Error err) s2 of
                          (None, s3) \<Rightarrow>
                            (Raised err, finally_block (w2\<lparr>is_running := False\<rparr>, s3))
                        | (Some print_err, s3) \<Rightarrow>
                            (Escaped print_err, finally_block (w2\<lparr>crashed := True\<rparr>, s3)))))))))"

text \<open>
  The loop of \<open>run\<close>, for one worker taking from the queue with no other thread putting
  into it. The result lists how each pass ended. A pass that blocks on the empty queue is
  the last one: the worker waits in \<open>get()\<close>. So is a pass that an exception leaves.
\<close>

function run :: "(string \<Rightarrow> string) \<Rightarrow> net \<Rightarrow> worker \<times> world
    \<Rightarrow> outcome list \<times> worker \<times> world" where
  "run slugify net ws =
     (if \<not> is_running (fst ws) then ([], ws)
      else (let r = run_step slugify net ws in
            if fst r = Blocked \<or> crashed (fst (snd r)) then ([fst r], snd r)
            else (case run slugify net (snd r) of (tr, ws') \<Rightarrow> (fst r # tr, ws'))))"
  by pat_completeness auto

section \<open>The download phase of \<open>cli\<close>\<close>

text \<open>
  The last phase of \<open>cli\<close> puts the jobs into a new queue and then, \<open>threads\<close> times, puts
  one sentinel and starts one worker; the workers run while the loop still goes on. The
  state of the phase holds what the threads share, the workers started so far, the number
  of passes of the \<open>for _ in range(threads)\<close> loop still to come and the directory the
  workers write to. Two fields record what happened: every item put into the queue, in
  order, and how each pass of each worker ended.
\<close>

record pool =
  shared :: world
  workers :: "worker list"
  to_spawn :: nat
  output_dir :: path
  enqueued :: "item list"
  history :: "(nat \<times> outcome) list"

text \<open>\<open>DownloaderWorker.__init__\<close>\<close>

definition new_worker :: "path \<Rightarrow> worker" where
  "new_worker out = \<lparr>output_path = out, is_running = True, task_id = None, crashed = False\<rparr>"

text \<open>
  The phase up to the loop that starts the workers. \<open>cwd\<close> is \<open>pathlib.Path.cwd()\<close>. The
  value of \<open>--output\<close> is a parameter of \<open>cli\<close>; nothing reads it. The overall task is the
  task \<open>generic_progress.add_task(steps[current_step], total=len(vod_download_data))\<close>,
  new and at zero.
\<close>

definition cli_download :: "path \<Rightarrow> string option \<Rightarrow> int \<Rightarrow> entry list \<Rightarrow> world \<Rightarrow> pool" where
  "cli_download cwd output_opt threads vod_download_data s =
     \<lparr>shared = s\<lparr>overall := 0, queue := map Job vod_download_data\<rparr>,
      workers = [],
      to_spawn = nat threads,
      output_dir = cwd @ [''output''],
      enqueued = map Job vod_download_data,
      history = []\<rparr>"

text \<open>
  What can happen next: the coordinator makes one more pass of its loop (\<open>Spawn\<close>), or the
  worker with a given index makes one pass of the loop of \<open>run\<close>. A worker whose loop has
  ended or whose thread is dead makes no pass, and neither does a worker that would block
  on the empty queue. The passes of the workers follow one another in any order, each as
  a whole: \<open>exec\<close> runs the phase along a given order.
\<close>

datatype action = Spawn | Pass nat

definition pool_step :: "(string \<Rightarrow> string) \<Rightarrow> net \<Rightarrow> action \<Rightarrow> pool \<Rightarrow> pool option" where
  "pool_step slugify net a p =
     (case a of
        Spawn \<Rightarrow>
          (if to_spawn p = 0 then None
           else Some (p\<lparr>shared := (shared p)\<lparr>queue := queue (shared p) @ [Sentinel]\<rparr>,
                        workers := workers p @ [new_worker (output_dir p)],
                        to_spawn := to_spawn p - 1,
                        enqueued := enqueued p @ [Sentinel]\<rparr>))
      | Pass i \<Rightarrow>
          (if i < length (workers p) \<and> is_running (workers p ! i) \<and>
              \<not> crashed (workers p ! i) then
             (case run_step slugify net (workers p ! i, shared p) of
                (oc, w', s') \<Rightarrow>
                  (if oc = Blocked then None
                   else Some (p\<lparr>shared := s', workers := (workers p)[i := w'],
                                history := history p @ [(i, oc)]\<rparr>)))
           else None))"

fun exec :: "(string \<Rightarrow> string) \<Rightarrow> net \<Rightarrow> action list \<Rightarrow> pool \<Rightarrow> pool option" where
  "exec slugify net [] p = Some p"
| "exec slugify net (a # as) p =
     (case pool_step slugify net a p of None \<Rightarrow> None | Some p' \<Rightarrow> exec slugify net as p')"

section \<open>The clients: \<open>eventbrite.py\<close> and \<open>streamyard.py\<close>\<close>

subsection \<open>JSON values and the Python operations on them\<close>

text \<open>
  What \<open>r.json()\<close> returns. Numbers are integers here: no number with a fraction plays a
  part in the code.
\<close>

datatype json =
    JNull
  | JBool bool
  | JInt int
  | JStr string
  | JArr "json list"
  | JObj "(string \<times> json) list"

text \<open>\<open>x[k]\<close> for a string \<open>k\<close>: a dict gives the entry or \<open>KeyError\<close>; nothing else takes a string.\<close>

fun subscript :: "json \<Rightarrow> string \<Rightarrow> py_error + json" where
  "subscript (JObj kvs) k = (case map_of kvs k of None \<Rightarrow> Inl (KeyError k) | Some v \<Rightarrow> Inr v)"
| "subscript x k = Inl (TypeError k)"

text \<open>
  \<open>x[0]\<close>: the first element of a list or the first character of a string, \<open>IndexError\<close>
  when there is none; a dict from JSON has string keys only, so \<open>0\<close> is a \<open>KeyError\<close>;
  nothing else can be indexed.
\<close>

fun first_item :: "json \<Rightarrow> py_error + json" where
  "first_item (JArr xs) = (case xs of [] \<Rightarrow> Inl IndexError | x # _ \<Rightarrow> Inr x)"
| "first_item (JStr s) = (case s of [] \<Rightarrow> Inl IndexError | c # _ \<Rightarrow> Inr (JStr [c]))"
| "first_item (JObj kvs) = Inl (KeyError ''0'')"
| "first_item x = Inl (TypeError ''0'')"

text \<open>The truth value of \<open>x\<close> in \<open>if x\<close> and \<open>while x\<close>.\<close>

fun truthy :: "json \<Rightarrow> bool" where
  "truthy JNull = False"
| "truthy (JBool b) = b"
| "truthy (JInt n) = (n \<noteq> 0)"
| "truthy (JStr s) = (s \<noteq> [])"
| "truthy (JArr xs) = (xs \<noteq> [])"
| "truthy (JObj kvs) = (kvs \<noteq> [])"

text \<open>
  The elements \<open>for x in v\<close> and \<open>list.extend(v)\<close> go through: the elements of a list, the
  keys of a dict, the characters of a string; anything else is not iterable.
\<close>

fun iterate :: "json \<Rightarrow> py_error + json list" where
  "iterate (JArr xs) = Inr xs"
| "iterate (JObj kvs) = Inr (map (\<lambda>kv. JStr (fst kv)) kvs)"
| "iterate (JStr s) = Inr (map (\<lambda>c. JStr [c]) s)"
| "iterate x = Inl (TypeError ''not iterable'')"

subsection \<open>Requests\<close>

text \<open>
  A GET request is its URL and its query parameters. The answer is a status code and the
  JSON value of the body, \<open>None\<close> when the body is not JSON. The server is a function from
  the request to what \<open>session.get\<close> does: raise, or return the answer.
\<close>

record request =
  req_url :: string
  req_params :: "(string \<times> json) list"

record reply =
  reply_status :: nat
  reply_json :: "json option"

type_synonym api = "request \<Rightarrow> py_error + reply"

text \<open>\<open>r.raise_for_status()\<close> followed by \<open>r.json()\<close>.\<close>

definition checked_json :: "reply \<Rightarrow> py_error + json" where
  "checked_json r =
     (if 400 \<le> reply_status r \<and> reply_status r < 600 then Inl (HTTPError (reply_status r))
      else (case reply_json r of None \<Rightarrow> Inl JSONDecodeError | Some v \<Rightarrow> Inr v))"

subsection \<open>\<open>EventBrite\<close>\<close>

text \<open>
  \<open>get_showmore\<close>: the pair is built left to right, so a missing \<open>events\<close> is met before a
  missing \<open>has_next_page\<close>; \<open>data["data"]\<close> is looked up for each.
\<close>

definition get_showmore :: "api \<Rightarrow> string \<Rightarrow> int \<Rightarrow> int \<Rightarrow> string \<Rightarrow> py_error + json \<times> json" where
  "get_showmore api org_id page pagesize ty =
     (case api \<lparr>req_url = ''https://www.eventbrite.it/org/'' @ org_id @ ''/showmore/'',
                req_params = [(''page_size'', JInt pagesize), (''type'', JStr ty),
                              (''page'', JInt page)]\<rparr> of
        Inl e \<Rightarrow> Inl e
      | Inr r \<Rightarrow>
         (case checked_json r of
            Inl e \<Rightarrow> Inl e
          | Inr data \<Rightarrow>
             (case subscript data ''data'' of
                Inl e \<Rightarrow> Inl e
              | Inr d \<Rightarrow>
                 (case subscript d ''events'' of
                    Inl e \<Rightarrow> Inl e
                  | Inr evs \<Rightarrow>
                     (case subscript data ''data'' of
                        Inl e \<Rightarrow> Inl e
                      | Inr d' \<Rightarrow>
                         (case subscript d' ''has_next_page'' of
                            Inl e \<Rightarrow> Inl e
                          | Inr h \<Rightarrow> Inr (evs, h)))))))"

text \<open>\<open>events.extend(data)\<close>\<close>

definition list_extend :: "json list \<Rightarrow> json \<Rightarrow> py_error + json list" where
  "list_extend events data = (case iterate data of Inl e \<Rightarrow> Inl e | Inr xs \<Rightarrow> Inr (events @ xs))"

text \<open>
  The loop of \<open>get_events\<close>, entered with the page to fetch and the events so far. It goes
  on for as long as the server reports a next page, so it need not end: the result is
  \<open>None\<close> when it does not.
\<close>

partial_function (option) get_events_loop ::
    "api \<Rightarrow> string \<Rightarrow> string \<Rightarrow> int \<Rightarrow> int \<Rightarrow> json list \<Rightarrow> (py_error + json list) option" where
  "get_events_loop api org_id ty pagesize page events =
     (case get_showmore api org_id page pagesize ty of
        Inl e \<Rightarrow> Some (Inl e)
      | Inr (data, has_next_page) \<Rightarrow>
         (case list_extend events data of
            Inl e \<Rightarrow> Some (Inl e)
          | Inr events' \<Rightarrow>
             (if truthy has_next_page
              then get_events_loop api org_id ty pagesize (page + 1) events'
              else Some (Inr events'))))"

definition get_events :: "api \<Rightarrow> string \<Rightarrow> string \<Rightarrow> int \<Rightarrow> (py_error + json list) option" where
  "get_events api org_id ty pagesize = get_events_loop api org_id ty pagesize 1 []"

definition get_past_events :: "api \<Rightarrow> string \<Rightarrow> int \<Rightarrow> (py_error + json list) option" where
  "get_past_events api org_id pagesize = get_events api org_id ''past'' pagesize"

definition get_future_events :: "api \<Rightarrow> string \<Rightarrow> int \<Rightarrow> (py_error + json list) option" where
  "get_future_events api org_id pagesize = get_events api org_id ''future'' pagesize"

definition get_all_events :: "api \<Rightarrow> string \<Rightarrow> int \<Rightarrow> (py_error + json list) option" where
  "get_all_events api org_id pagesize =
     (case get_future_events api org_id pagesize of
        None \<Rightarrow> None
      | Some (Inl e) \<Rightarrow> Some (Inl e)
      | Some (Inr future) \<Rightarrow>
         (case get_past_events api org_id pagesize of
            None \<Rightarrow> None
          | Some (Inl e) \<Rightarrow> Some (Inl e)
          | Some (Inr past) \<Rightarrow> Some (Inr ([] @ future @ past))))"

subsection \<open>\<open>StreamYard.register_webinar\<close>\<close>

text \<open>
  A Python dict with the values JSON can give as keys, as the list of its items in the
  order of insertion. Lists and dicts cannot be keys. \<open>True\<close> and \<open>1\<close> are the same key, and
  so are \<open>False\<close> and \<open>0\<close>; an assignment to a key that is present replaces the value and
  keeps the key.
\<close>

fun hashable :: "json \<Rightarrow> bool" where
  "hashable (JArr xs) = False"
| "hashable (JObj kvs) = False"
| "hashable x = True"

fun key_norm :: "json \<Rightarrow> json" where
  "key_norm (JBool b) = JInt (if b then 1 else 0)"
| "key_norm x = x"

definition same_key :: "json \<Rightarrow> json \<Rightarrow> bool" where
  "same_key a b = (key_norm a = key_norm b)"

fun dict_set :: "(json \<times> 'v) list \<Rightarrow> json \<Rightarrow> 'v \<Rightarrow> (json \<times> 'v) list" where
  "dict_set [] k v = [(k, v)]"
| "dict_set ((k', x) # d) k v =
     (if same_key k' k then (k', v) # d else (k', x) # dict_set d k v)"

fun dict_get :: "(json \<times> 'v) list \<Rightarrow> json \<Rightarrow> 'v option" where
  "dict_get [] k = None"
| "dict_get ((k', x) # d) k = (if same_key k' k then Some x else dict_get d k)"

text \<open>\<open>fields_values[field["id"]] = v\<close>\<close>

definition set_field :: "(json \<times> string) list \<Rightarrow> json \<Rightarrow> string \<Rightarrow> py_error + (json \<times> string) list" where
  "set_field d field v =
     (case subscript field ''id'' of
        Inl e \<Rightarrow> Inl e
      | Inr k \<Rightarrow> if hashable k then Inr (dict_set d k v) else Inl (TypeError ''unhashable''))"

text \<open>The loop \<open>for field in fields_data\<close>, entered with the fields still to come.\<close>

fun fields_loop :: "json list \<Rightarrow> string \<Rightarrow> string \<Rightarrow> string \<Rightarrow> (json \<times> string) list
    \<Rightarrow> py_error + (json \<times> string) list" where
  "fields_loop [] email first_name last_name fields_values = Inr fields_values"
| "fields_loop (field # rest) email first_name last_name fields_values =
     (case subscript field ''isRequired'' of
        Inl e \<Rightarrow> Inl e
      | Inr required \<Rightarrow>
         (if truthy required then
            (case subscript field ''type'' of
               Inl e \<Rightarrow> Inl e
             | Inr ty \<Rightarrow>
                (if ty = JStr ''email'' then
                   (case set_field fields_values field email of
                      Inl e \<Rightarrow> Inl e
                    | Inr d \<Rightarrow> fields_loop rest email first_name last_name d)
                 else if ty = JStr ''firstName'' then
                   (case set_field fields_values field first_name of
                      Inl e \<Rightarrow> Inl e
                    | Inr d \<Rightarrow> fields_loop rest email first_name last_name d)
                 else if ty = JStr ''lastName'' then
                   (case set_field fields_values field last_name of
                      Inl e \<Rightarrow> Inl e
                    | Inr d \<Rightarrow> fields_loop rest email first_name last_name d)
                 else fields_loop rest email first_name last_name fields_values))
          else fields_loop rest email first_name last_name fields_values))"

text \<open>\<open>url.split("/")[-1]\<close>\<close>

definition last_segment :: "string \<Rightarrow> string" where
  "last_segment u = rev (takeWhile (\<lambda>c. c \<noteq> CHR ''/'') (rev u))"

text \<open>\<open>webinar_data["registrationFieldDefinitions"][0]\<close>\<close>

definition first_definition :: "json \<Rightarrow> py_error + json" where
  "first_definition webinar_data =
     (case subscript webinar_data ''registrationFieldDefinitions'' of
        Inl e \<Rightarrow> Inl e
      | Inr defs \<Rightarrow> first_item defs)"

text \<open>The JSON body of the registration request.\<close>

record registration =
  reg_email :: string
  reg_firstName :: string
  reg_lastName :: string
  reg_definitionId :: json
  reg_values :: "(json \<times> string) list"
  reg_timeZone :: string

text \<open>\<open>register_webinar\<close> up to the request: its URL and its body.\<close>

definition registration_data :: "string \<Rightarrow> json \<Rightarrow> string \<Rightarrow> string \<Rightarrow> string
    \<Rightarrow> py_error + string \<times> registration" where
  "registration_data u webinar_data email first_name last_name =
     (let webinar_id = last_segment u in
      (case first_definition webinar_data of
         Inl e \<Rightarrow> Inl e
       | Inr def0 \<Rightarrow>
          (case subscript def0 ''id'' of
             Inl e \<Rightarrow> Inl e
           | Inr fields_id \<Rightarrow>
              (case first_definition webinar_data of
                 Inl e \<Rightarrow> Inl e
               | Inr def1 \<Rightarrow>
                  (case subscript def1 ''fields'' of
                     Inl e \<Rightarrow> Inl e
                   | Inr fs0 \<Rightarrow>
                      (case subscript fs0 ''data'' of
                         Inl e \<Rightarrow> Inl e
                       | Inr fields_data \<Rightarrow>
                          (case iterate fields_data of
                             Inl e \<Rightarrow> Inl e
                           | Inr field_list \<Rightarrow>
                              (case fields_loop field_list email first_name last_name [] of
                                 Inl e \<Rightarrow> Inl e
                               | Inr fields_values \<Rightarrow>
                                  Inr (''https://oa-api.streamyard.com/api/public/webinars/''
                                         @ webinar_id @ ''/registrations'',
                                       \<lparr>reg_email = email, reg_firstName = first_name,
                                        reg_lastName = last_name,
                                        reg_definitionId = fields_id,
                                        reg_values = fields_values,
                                        reg_timeZone = ''Europe/Rome''\<rparr>)))))))))"

text \<open>
  \<open>register_webinar\<close>: \<open>post\<close> is what \<open>session.post\<close> does with the URL and the body (the
  header \<open>X-Csrf-Protection\<close> is the same in every request). The result is what the method
  returns or raises, and with it the requests the method has sent, each with its URL and
  its body: none when an exception comes before the request, one otherwise.
\<close>

definition register_webinar :: "(string \<Rightarrow> registration \<Rightarrow> py_error + reply) \<Rightarrow> string \<Rightarrow> json
    \<Rightarrow> string \<Rightarrow> string \<Rightarrow> string \<Rightarrow> (py_error + json) \<times> (string \<times> registration) list" where
  "register_webinar post u webinar_data email first_name last_name =
     (case registration_data u webinar_data email first_name last_name of
        Inl e \<Rightarrow> (Inl e, [])
      | Inr (registration_url, registration_body) \<Rightarrow>
         (case post registration_url registration_body of
            Inl e \<Rightarrow> (Inl e, [(registration_url, registration_body)])
          | Inr r \<Rightarrow> (checked_json r, [(registration_url, registration_body)])))"

section \<open>Notions for the statements\<close>

text \<open>
  The target path and the task label of a job, as \<open>run\<close> computes them:
  \<open>self.output / f"{slugify(entry["title"])}.mp4"\<close> and \<open>crop_string(str(output_video), 20)\<close>.
\<close>

definition target :: "(string \<Rightarrow> string) \<Rightarrow> worker \<Rightarrow> entry \<Rightarrow> path" where
  "target slugify w e = output_path w @ [slugify (title e) @ ''.mp4'']"

definition label :: "(string \<Rightarrow> string) \<Rightarrow> worker \<Rightarrow> entry \<Rightarrow> string" where
  "label slugify w e = crop_string (path_str (target slugify w e)) 20 ellipsis_default False"

text \<open>The number of chunks the loop writes.\<close>

definition written :: "nat option \<Rightarrow> 'a list \<Rightarrow> nat" where
  "written st cs = (case st of None \<Rightarrow> length cs | Some n \<Rightarrow> min n (length cs))"

text \<open>The state in which the chunk loop starts.\<close>

definition opened :: "string \<Rightarrow> path \<Rightarrow> int \<Rightarrow> world \<Rightarrow> world" where
  "opened name p n s =
     start_task (next_task s)
       (truncate_file p (update_total (next_task s) n (snd (add_task name s))))"

text \<open>What the next call of \<open>console.print\<close> raises, if it raises.\<close>

definition next_print :: "world \<Rightarrow> py_error option" where
  "next_print s = (case print_errors s of [] \<Rightarrow> None | x # _ \<Rightarrow> x)"



text \<open>How the passes of worker \<open>i\<close> ended, in order.\<close>

definition passes :: "nat \<Rightarrow> pool \<Rightarrow> outcome list" where
  "passes i p = map snd (filter (\<lambda>x. fst x = i) (history p))"

text \<open>
  Where the download phase writes: the workers' directory is \<open>cwd/output\<close>, every job in
  the queue is one of the jobs \<open>js\<close>, and a file that differs from \<open>files\<close> is at
  \<open>cwd/output/<slug>.mp4\<close> for the title of one of them.
\<close>

definition writes_under :: "path \<Rightarrow> (string \<Rightarrow> string) \<Rightarrow> entry list \<Rightarrow> (path \<rightharpoonup> bytes) \<Rightarrow> pool \<Rightarrow> bool" where
  "writes_under cwd slugify js files p \<longleftrightarrow>
     output_dir p = cwd @ [''output''] \<and>
     (\<forall>w\<in>set (workers p). output_path w = cwd @ [''output'']) \<and>
     (\<forall>e. Job e \<in> set (queue (shared p)) \<longrightarrow> e \<in> set js) \<and>
     (\<forall>x. fs (shared p) x \<noteq> files x \<longrightarrow>
          (\<exists>e\<in>set js. x = cwd @ [''output'', slugify (title e) @ ''.mp4'']))"

text \<open>A worker still runs when its flag is set and no exception has left its \<open>run\<close>.\<close>

definition active :: "worker \<Rightarrow> bool" where
  "active w \<longleftrightarrow> is_running w \<and> \<not> crashed w"

definition running :: "worker list \<Rightarrow> nat" where
  "running ws = length (filter active ws)"

text \<open>
  The passes of a worker that still runs all ended by a normal return. The passes of a
  worker that has stopped ended so but for the last one: a worker whose flag is clear
  took the sentinel or caught an exception; a worker whose thread is dead let an
  exception escape, and its flag is still set.
\<close>

definition worker_ok :: "worker \<Rightarrow> outcome list \<Rightarrow> bool" where
  "worker_ok w h =
     (if crashed w then is_running w \<and> (\<exists>k err. h = replicate k Returned @ [Escaped err])
      else if is_running w then (\<exists>k. h = replicate k Returned)
      else (\<exists>k x. h = replicate k Returned @ [x] \<and> (x = GotSentinel \<or> (\<exists>err. x = Raised err))))"

text \<open>No call of \<open>console.print\<close> is going to raise, and no worker has let an exception escape.\<close>

definition quiet :: "pool \<Rightarrow> bool" where
  "quiet p \<longleftrightarrow> print_errors (shared p) = [] \<and> (\<forall>w\<in>set (workers p). \<not> crashed w)"

text \<open>
  The state of a download phase in which the stop event is never set: the queue got the
  jobs and then one sentinel for each worker started; workers started and workers to
  start add up to \<open>W\<close>; the passes of every worker are as \<open>worker_ok\<close> says; and the
  queue holds at least as many sentinels as workers run.
\<close>

definition balanced :: "entry list \<Rightarrow> nat \<Rightarrow> pool \<Rightarrow> bool" where
  "balanced js W p \<longleftrightarrow>
     stop_after (shared p) = None \<and>
     enqueued p = map Job js @ replicate (length (workers p)) Sentinel \<and>
     length (workers p) + to_spawn p = W \<and>
     (\<forall>i<length (workers p). worker_ok (workers p ! i) (passes i p)) \<and>
     (\<forall>i\<ge>length (workers p). passes i p = []) \<and>
     running (workers p) \<le> count_list (queue (shared p)) Sentinel"

text \<open>
  The server serves the pages \<open>pgs\<close> of an event set: there is at least one page; the
  request for page \<open>k + 1\<close> is answered with the events \<open>pgs ! k\<close>, and the answer reports a
  next page exactly when \<open>pgs ! k\<close> is not the last page.
\<close>

definition serves :: "api \<Rightarrow> string \<Rightarrow> string \<Rightarrow> int \<Rightarrow> json list list \<Rightarrow> bool" where
  "serves api org_id ty pagesize pgs \<longleftrightarrow>
     pgs \<noteq> [] \<and>
     (\<forall>k<length pgs. \<exists>d h.
         get_showmore api org_id (int k + 1) pagesize ty = Inr (d, h) \<and>
         iterate d = Inr (pgs ! k) \<and> truthy h = (Suc k < length pgs))"

text \<open>
  The value a field receives according to the specification: a field that is required and
  whose type is \<open>email\<close>, \<open>firstName\<close> or \<open>lastName\<close> receives the email, the first name or
  the last name; any other field receives nothing.
\<close>

definition spec_value :: "string \<Rightarrow> string \<Rightarrow> string \<Rightarrow> json \<Rightarrow> string option" where
  "spec_value email first_name last_name field =
     (case subscript field ''isRequired'' of
        Inl _ \<Rightarrow> None
      | Inr required \<Rightarrow>
         (if truthy required then
            (case subscript field ''type'' of
               Inl _ \<Rightarrow> None
             | Inr ty \<Rightarrow>
                 if ty = JStr ''email'' then Some email
                 else if ty = JStr ''firstName'' then Some first_name
                 else if ty = JStr ''lastName'' then Some last_name
                 else None)
          else None))"

text \<open>The entry a field adds to the values: its id with its value, if it receives one.\<close>

definition spec_entry :: "string \<Rightarrow> string \<Rightarrow> string \<Rightarrow> json \<Rightarrow> (json \<times> string) option" where
  "spec_entry email first_name last_name field =
     (case spec_value email first_name last_name field of
        None \<Rightarrow> None
      | Some v \<Rightarrow> (case subscript field ''id'' of Inl _ \<Rightarrow> None | Inr k \<Rightarrow> Some (k, v)))"

text \<open>The key under which a field is entered, if it has an id.\<close>

definition field_key :: "json \<Rightarrow> json option" where
  "field_key field = (case subscript field ''id'' of Inl _ \<Rightarrow> None | Inr k \<Rightarrow> Some (key_norm k))"

text \<open>
  The fields of the first registration field definition:
  \<open>webinar_data["registrationFieldDefinitions"][0]["fields"]["data"]\<close>, as the loop goes
  through them.
\<close>

definition registration_fields :: "json \<Rightarrow> py_error + json list" where
  "registration_fields webinar_data =
     (case first_definition webinar_data of
        Inl e \<Rightarrow> Inl e
      | Inr def0 \<Rightarrow>
         (case subscript def0 ''fields'' of
            Inl e \<Rightarrow> Inl e
          | Inr fs0 \<Rightarrow>
             (case subscript fs0 ''data'' of
                Inl e \<Rightarrow> Inl e
              | Inr fields_data \<Rightarrow> iterate fields_data)))"

section \<open>Concrete inputs\<close>

text \<open>
  The inputs of the examples: a slug function for lower-case titles, a world and a worker
  to start from, and a network that answers six URLs.
\<close>

definition ex_slugify :: "string \<Rightarrow> string" where
  "ex_slugify t = map (\<lambda>c. if c = CHR '' '' then CHR ''-'' else c) t"

definition ex_world :: "(path \<rightharpoonup> bytes) \<Rightarrow> item list \<Rightarrow> nat option \<Rightarrow> world" where
  "ex_world files q st =
     \<lparr>fs = files, tasks = Map.empty, next_task = 0, console = [], overall = 0, queue = q,
      stop_after = st, stat_error = (\<lambda>p. None), open_error = (\<lambda>p. None),
      write_error = (\<lambda>p. None), print_errors = [], bytes_written = 0\<rparr>"

definition ex_worker :: worker where
  "ex_worker =
     \<lparr>output_path = [''home'', ''output''], is_running = True, task_id = None, crashed = False\<rparr>"

text \<open>
  A world in which the next call of \<open>console.print\<close> raises, as it does on a text that
  holds \<open>[/]\<close>.
\<close>

definition ex_markup :: "world \<Rightarrow> world" where
  "ex_markup s = s\<lparr>print_errors := [Some (MarkupError ''[/]'')]\<rparr>"

definition ex_job :: "string \<Rightarrow> string \<Rightarrow> entry" where
  "ex_job t u = \<lparr>title = t, url = u, poster = []\<rparr>"

definition ex_response :: "nat \<Rightarrow> string option \<Rightarrow> bytes list \<Rightarrow> response" where
  "ex_response st len chunks =
     \<lparr>status_code = st, content_length = len, body = chunks, body_error = None\<rparr>"

definition ex_net :: net where
  "ex_net u =
     (if u = ''http://h/a.mp4'' then Inr (ex_response 200 (Some ''6'') [''abc'', ''def''])
      else if u = ''http://h/b.mp4'' then Inr (ex_response 404 (Some ''3'') [''err''])
      else if u = ''http://h/c.mp4'' then Inr (ex_response 200 None [''xy'', ''z''])
      else if u = ''http://h/d.mp4'' then Inr (ex_response 500 None [])
      else if u = ''http://h/e.mp4'' then Inr (ex_response 200 (Some ''9'') [''abc'', ''def'', ''ghi''])
      else if u = ''http://h/f.mp4'' then Inr (ex_response 200 (Some ''x6'') [''abcdef''])
      else Inl (ConnectionError u))"

definition ex7_world :: world where
  "ex7_world =
     ex_world [[''home'', ''output'', ''intro-to-x.mp4''] \<mapsto> ''old'']
       [Job (ex_job ''intro to x'' ''http://h/b.mp4''), Sentinel] None"

definition ex1_world :: world where
  "ex1_world =
     ex_world Map.empty
       [Job (ex_job ''broken'' ''http://h/b.mp4''), Job (ex_job ''intro to x'' ''http://h/a.mp4''),
        Sentinel] None"

definition ex_long :: response where
  "ex_long = ex_response 200 (Some ''9'') [''abc'', ''def'', ''ghi'']"

definition ex2_world :: world where
  "ex2_world =
     ex_world Map.empty [Job (ex_job ''long talk'' ''http://h/e.mp4''), Sentinel] (Some 2)"

definition ex3_world :: world where
  "ex3_world = ex_world Map.empty [Job (ex_job ''outage'' ''http://h/d.mp4''), Sentinel] None"








definition ex8_start :: "string option \<Rightarrow> pool" where
  "ex8_start output_opt =
     cli_download [''home''] output_opt 1 [ex_job ''intro to x'' ''http://h/a.mp4'']
       (ex_world Map.empty [] None)"

definition ex5_start :: pool where
  "ex5_start =
     cli_download [''home''] None 1 [ex_job ''broken'' ''http://h/b.mp4'']
       (ex_world Map.empty [] None)"

definition ex5_pair :: pool where
  "ex5_pair =
     cli_download [''home''] None 2 [ex_job ''intro to x'' ''http://h/a.mp4'']
       (ex_world Map.empty [] None)"

definition ex_page :: "json list \<Rightarrow> bool \<Rightarrow> py_error + reply" where
  "ex_page evs has_next =
     Inr \<lparr>reply_status = 200,
          reply_json = Some (JObj [(''data'',
            JObj [(''events'', JArr evs), (''has_next_page'', JBool has_next)])])\<rparr>"

definition ex_event :: "int \<Rightarrow> json" where
  "ex_event n = JObj [(''id'', JInt n)]"

definition ex_api :: api where
  "ex_api q =
     (if req_url q \<noteq> ''https://www.eventbrite.it/org/42/showmore/'' then Inl (ConnectionError (req_url q))
      else if req_params q = [(''page_size'', JInt 2), (''type'', JStr ''future''), (''page'', JInt 1)]
        then ex_page [ex_event 1, ex_event 2] True
      else if req_params q = [(''page_size'', JInt 2), (''type'', JStr ''future''), (''page'', JInt 2)]
        then ex_page [ex_event 3] False
      else if req_params q = [(''page_size'', JInt 2), (''type'', JStr ''past''), (''page'', JInt 1)]
        then ex_page [ex_event 4] False
      else Inr \<lparr>reply_status = 404, reply_json = None\<rparr>)"

definition ex_field :: "string \<Rightarrow> bool \<Rightarrow> string \<Rightarrow> json" where
  "ex_field i req ty = JObj [(''id'', JStr i), (''isRequired'', JBool req), (''type'', JStr ty)]"

definition ex_field_list :: "json list" where
  "ex_field_list =
     [ex_field ''f1'' True ''email'', ex_field ''f2'' True ''firstName'',
      ex_field ''f3'' False ''lastName'', ex_field ''f4'' True ''phone'',
      ex_field ''f5'' True ''lastName'']"

definition ex_webinar :: json where
  "ex_webinar =
     JObj [(''title'', JStr ''Intro to X''),
           (''registrationFieldDefinitions'',
            JArr [JObj [(''id'', JStr ''def-1''),
                        (''fields'', JObj [(''data'', JArr ex_field_list)])]])]"

definition ex_post :: "string \<Rightarrow> registration \<Rightarrow> py_error + reply" where
  "ex_post registration_url registration_body =
     Inr \<lparr>reply_status = 200, reply_json = Some (JObj [(''status'', JStr ''registered'')])\<rparr>"

definition ex_reg :: registration where
  "ex_reg =
     \<lparr>reg_email = ''a@b.c'', reg_firstName = ''Ada'', reg_lastName = ''Lovelace'',
      reg_definitionId = JStr ''def-1'',
      reg_values = [(JStr ''f1'', ''a@b.c''), (JStr ''f2'', ''Ada''), (JStr ''f5'', ''Lovelace'')],
      reg_timeZone = ''Europe/Rome''\<rparr>"

section \<open>Properties of the worker\<close>

subsection \<open>The stop event, the console and the queue\<close>

lemma is_set_cases:
  "is_set s = (True, s) \<and> stop_after s = Some 0
   \<or> is_set s = (False, s) \<and> stop_after s = None
   \<or> (\<exists>n. is_set s = (False, s\<lparr>stop_after := Some n\<rparr>) \<and> stop_after s = Some (Suc n))"
  by (simp add: is_set_def split: option.splits nat.splits)

lemma is_set_queue: "queue (snd (is_set s)) = queue s"
  using is_set_cases [of s] by auto

lemma is_set_frame:
  "is_set s = (b, s1) \<Longrightarrow>
   fs s1 = fs s \<and> tasks s1 = tasks s \<and> next_task s1 = next_task s \<and> console s1 = console s \<and>
   overall s1 = overall s \<and> queue s1 = queue s \<and> stat_error s1 = stat_error s \<and>
   open_error s1 = open_error s \<and> write_error s1 = write_error s \<and>
   print_errors s1 = print_errors s \<and> bytes_written s1 = bytes_written s"
  using is_set_cases [of s] by auto

lemma is_set_next_print: "is_set s = (b, s1) \<Longrightarrow> next_print s1 = next_print s"
  using is_set_frame [of s b s1] by (simp add: next_print_def)

lemma console_print_simps:
  "fst (console_print l s) = next_print s"
  "console (snd (console_print l s)) = (if next_print s = None then console s @ [l] else console s)"
  "print_errors (snd (console_print l s)) = tl (print_errors s)"
  "fs (snd (console_print l s)) = fs s"
  "tasks (snd (console_print l s)) = tasks s"
  "next_task (snd (console_print l s)) = next_task s"
  "overall (snd (console_print l s)) = overall s"
  "queue (snd (console_print l s)) = queue s"
  "stop_after (snd (console_print l s)) = stop_after s"
  "stat_error (snd (console_print l s)) = stat_error s"
  "open_error (snd (console_print l s)) = open_error s"
  "write_error (snd (console_print l s)) = write_error s"
  "bytes_written (snd (console_print l s)) = bytes_written s"
  by (simp_all add: console_print_def next_print_def split: list.splits option.splits)

subsection \<open>What the calls on the progress and on the disk change\<close>

lemma add_task_simps:
  "fst (add_task name s) = next_task s"
  "fs (snd (add_task name s)) = fs s"
  "console (snd (add_task name s)) = console s"
  "overall (snd (add_task name s)) = overall s"
  "queue (snd (add_task name s)) = queue s"
  "next_task (snd (add_task name s)) = Suc (next_task s)"
  "stop_after (snd (add_task name s)) = stop_after s"
  "stat_error (snd (add_task name s)) = stat_error s"
  "open_error (snd (add_task name s)) = open_error s"
  "write_error (snd (add_task name s)) = write_error s"
  "print_errors (snd (add_task name s)) = print_errors s"
  "bytes_written (snd (add_task name s)) = bytes_written s"
  "tasks (snd (add_task name s)) =
     (tasks s)(next_task s \<mapsto> \<lparr>filename = name, total = 100, completed = 0, started = False\<rparr>)"
  by (simp_all add: add_task_def)

lemma same_size_add_task: "same_size (snd (add_task name s)) p n = same_size s p n"
  by (simp add: same_size_def add_task_simps)

lemma same_size_queue: "same_size (s\<lparr>queue := q\<rparr>) p n = same_size s p n"
  by (simp add: same_size_def)

lemma next_print_add_task: "next_print (snd (add_task name s)) = next_print s"
  by (simp add: next_print_def add_task_simps)

lemma next_print_queue: "next_print (s\<lparr>queue := q\<rparr>) = next_print s"
  by (simp add: next_print_def)

lemma update_total_simps:
  "fs (update_total t n s) = fs s"
  "console (update_total t n s) = console s"
  "overall (update_total t n s) = overall s"
  "queue (update_total t n s) = queue s"
  "next_task (update_total t n s) = next_task s"
  "stop_after (update_total t n s) = stop_after s"
  "stat_error (update_total t n s) = stat_error s"
  "open_error (update_total t n s) = open_error s"
  "write_error (update_total t n s) = write_error s"
  "print_errors (update_total t n s) = print_errors s"
  "bytes_written (update_total t n s) = bytes_written s"
  "tasks (update_total t n s) = (tasks s)(t := map_option (\<lambda>k. k\<lparr>total := n\<rparr>) (tasks s t))"
  by (simp_all add: update_total_def)

lemma start_task_simps:
  "fs (start_task t s) = fs s"
  "console (start_task t s) = console s"
  "overall (start_task t s) = overall s"
  "queue (start_task t s) = queue s"
  "next_task (start_task t s) = next_task s"
  "stop_after (start_task t s) = stop_after s"
  "stat_error (start_task t s) = stat_error s"
  "open_error (start_task t s) = open_error s"
  "write_error (start_task t s) = write_error s"
  "print_errors (start_task t s) = print_errors s"
  "bytes_written (start_task t s) = bytes_written s"
  "tasks (start_task t s) = (tasks s)(t := map_option (\<lambda>k. k\<lparr>started := True\<rparr>) (tasks s t))"
  by (simp_all add: start_task_def)

lemma truncate_file_simps:
  "fs (truncate_file p s) = (fs s)(p \<mapsto> [])"
  "console (truncate_file p s) = console s"
  "overall (truncate_file p s) = overall s"
  "queue (truncate_file p s) = queue s"
  "next_task (truncate_file p s) = next_task s"
  "stop_after (truncate_file p s) = stop_after s"
  "stat_error (truncate_file p s) = stat_error s"
  "open_error (truncate_file p s) = open_error s"
  "write_error (truncate_file p s) = write_error s"
  "print_errors (truncate_file p s) = print_errors s"
  "bytes_written (truncate_file p s) = bytes_written s"
  "tasks (truncate_file p s) = tasks s"
  by (simp_all add: truncate_file_def)

lemma remove_task_simps:
  "fs (remove_task t s) = fs s"
  "console (remove_task t s) = console s"
  "overall (remove_task t s) = overall s"
  "queue (remove_task t s) = queue s"
  "next_task (remove_task t s) = next_task s"
  "stop_after (remove_task t s) = stop_after s"
  "stat_error (remove_task t s) = stat_error s"
  "open_error (remove_task t s) = open_error s"
  "write_error (remove_task t s) = write_error s"
  "print_errors (remove_task t s) = print_errors s"
  "bytes_written (remove_task t s) = bytes_written s"
  "tasks (remove_task t s) = (tasks s)(t := None)"
  by (simp_all add: remove_task_def)

lemma append_bytes_simps:
  "fs (append_bytes p c s) = (fs s)(p \<mapsto> (case fs s p of None \<Rightarrow> c | Some b \<Rightarrow> b @ c))"
  "tasks (append_bytes p c s) = tasks s"
  "console (append_bytes p c s) = console s"
  "overall (append_bytes p c s) = overall s"
  "queue (append_bytes p c s) = queue s"
  "next_task (append_bytes p c s) = next_task s"
  "stop_after (append_bytes p c s) = stop_after s"
  "stat_error (append_bytes p c s) = stat_error s"
  "open_error (append_bytes p c s) = open_error s"
  "write_error (append_bytes p c s) = write_error s"
  "print_errors (append_bytes p c s) = print_errors s"
  "bytes_written (append_bytes p c s) = bytes_written s + length c"
  by (simp_all add: append_bytes_def)

lemma advance_task_simps:
  "fs (advance_task t n s) = fs s"
  "tasks (advance_task t n s) = (tasks s)(t := map_option (\<lambda>k. k\<lparr>completed := completed k + n\<rparr>) (tasks s t))"
  "console (advance_task t n s) = console s"
  "overall (advance_task t n s) = overall s"
  "queue (advance_task t n s) = queue s"
  "next_task (advance_task t n s) = next_task s"
  "stop_after (advance_task t n s) = stop_after s"
  "stat_error (advance_task t n s) = stat_error s"
  "open_error (advance_task t n s) = open_error s"
  "write_error (advance_task t n s) = write_error s"
  "print_errors (advance_task t n s) = print_errors s"
  "bytes_written (advance_task t n s) = bytes_written s"
  by (simp_all add: advance_task_def)

lemmas world_simps =
  add_task_simps update_total_simps start_task_simps truncate_file_simps remove_task_simps
  append_bytes_simps advance_task_simps

lemma opened_simps:
  "fs (opened name p n s) = (fs s)(p \<mapsto> [])"
  "console (opened name p n s) = console s"
  "overall (opened name p n s) = overall s"
  "queue (opened name p n s) = queue s"
  "next_task (opened name p n s) = Suc (next_task s)"
  "stop_after (opened name p n s) = stop_after s"
  "stat_error (opened name p n s) = stat_error s"
  "open_error (opened name p n s) = open_error s"
  "write_error (opened name p n s) = write_error s"
  "print_errors (opened name p n s) = print_errors s"
  "bytes_written (opened name p n s) = bytes_written s"
  "tasks (opened name p n s) =
     (tasks s)(next_task s \<mapsto> \<lparr>filename = name, total = n, completed = 0, started = True\<rparr>)"
  by (simp_all add: opened_def world_simps)

lemma finally_block_simps:
  "fst (finally_block (w, s)) = w"
  "fs (snd (finally_block (w, s))) = fs s"
  "console (snd (finally_block (w, s))) = console s"
  "queue (snd (finally_block (w, s))) = queue s"
  "next_task (snd (finally_block (w, s))) = next_task s"
  "stop_after (snd (finally_block (w, s))) = stop_after s"
  "stat_error (snd (finally_block (w, s))) = stat_error s"
  "open_error (snd (finally_block (w, s))) = open_error s"
  "write_error (snd (finally_block (w, s))) = write_error s"
  "print_errors (snd (finally_block (w, s))) = print_errors s"
  "bytes_written (snd (finally_block (w, s))) = bytes_written s"
  "overall (snd (finally_block (w, s))) = (if is_running w then Suc (overall s) else overall s)"
  "tasks (snd (finally_block (w, s))) = (case task_id w of None \<Rightarrow> tasks s | Some t \<Rightarrow> (tasks s)(t := None))"
  by (simp_all add: finally_block_def Let_def remove_task_simps split: option.splits)

lemma finally_block_worker: "fst (finally_block ws) = fst ws"
  by (simp add: finally_block_def Let_def split: prod.splits)

lemma finally_block_queue: "queue (snd (finally_block ws)) = queue (snd ws)"
  by (simp add: finally_block_def Let_def remove_task_def split: prod.splits option.splits)

lemma finally_block_eq: "finally_block (w, s) = (w, snd (finally_block (w, s)))"
  by (simp add: prod_eq_iff finally_block_simps)

subsection \<open>The chunk loop\<close>

lemma write_chunk_ok:
  "write_error s p = None \<Longrightarrow> write_chunk p c s = Inr (append_bytes p c s)"
  by (simp add: write_chunk_def)

lemma write_chunks_set:
  "stop_after s = Some 0 \<Longrightarrow> write_chunks p t (c # cs) err s = (Inr (), s)"
  by (simp add: is_set_def)

lemma write_chunks_clear:
  "stop_after s = None \<Longrightarrow> write_error s p = None \<Longrightarrow>
   write_chunks p t (c # cs) err s =
     write_chunks p t cs err (append_bytes p c (advance_task t (int (length c)) s))"
  by (simp add: is_set_def write_chunk_def advance_task_def)

lemma write_chunks_later:
  "stop_after s = Some (Suc n) \<Longrightarrow> write_error s p = None \<Longrightarrow>
   write_chunks p t (c # cs) err s =
     write_chunks p t cs err
       (append_bytes p c (advance_task t (int (length c)) (s\<lparr>stop_after := Some n\<rparr>)))"
  by (simp add: is_set_def write_chunk_def advance_task_def)

text \<open>The three ways a pass of the loop can go, whatever the disk does.\<close>

lemma write_chunks_step:
  "write_chunks p t (c # cs) err s = (Inr (), s) \<and> stop_after s = Some 0
   \<or> (\<exists>s1 e. is_set s = (False, s1) \<and> write_error s p = Some e \<and>
         write_chunks p t (c # cs) err s = (Inl e, advance_task t (int (length c)) s1))
   \<or> (\<exists>s1. is_set s = (False, s1) \<and> write_error s p = None \<and>
         write_chunks p t (c # cs) err s =
           write_chunks p t cs err (append_bytes p c (advance_task t (int (length c)) s1)))"
  using is_set_cases [of s]
  by (cases "write_error s p") (auto simp: write_chunk_def advance_task_def)

declare write_chunks.simps(2) [simp del]

lemma write_chunks_frame:
  "console (snd (write_chunks p t cs err s)) = console s \<and>
   overall (snd (write_chunks p t cs err s)) = overall s \<and>
   next_task (snd (write_chunks p t cs err s)) = next_task s \<and>
   queue (snd (write_chunks p t cs err s)) = queue s \<and>
   stat_error (snd (write_chunks p t cs err s)) = stat_error s \<and>
   open_error (snd (write_chunks p t cs err s)) = open_error s \<and>
   write_error (snd (write_chunks p t cs err s)) = write_error s \<and>
   print_errors (snd (write_chunks p t cs err s)) = print_errors s"
proof (induction cs arbitrary: s)
  case Nil
  then show ?case by (simp split: option.splits)
next
  case (Cons c cs)
  from write_chunks_step [of p t c cs err s] show ?case
  proof (elim disjE exE conjE)
    assume "write_chunks p t (c # cs) err s = (Inr (), s)"
    then show ?thesis by simp
  next
    fix s1 e
    assume "is_set s = (False, s1)"
      and "write_chunks p t (c # cs) err s = (Inl e, advance_task t (int (length c)) s1)"
    with is_set_frame [of s False s1] show ?thesis by (simp add: advance_task_simps)
  next
    fix s1
    assume "is_set s = (False, s1)"
      and "write_chunks p t (c # cs) err s =
           write_chunks p t cs err (append_bytes p c (advance_task t (int (length c)) s1))"
    with is_set_frame [of s False s1]
      Cons.IH [of "append_bytes p c (advance_task t (int (length c)) s1)"]
    show ?thesis by (simp add: append_bytes_simps advance_task_simps)
  qed
qed

lemma write_chunks_queue: "queue (snd (write_chunks p t cs err s)) = queue s"
  using write_chunks_frame [of p t cs err s] by simp

lemma write_chunks_stop_none:
  "stop_after s = None \<Longrightarrow> stop_after (snd (write_chunks p t cs err s)) = None"
proof (induction cs arbitrary: s)
  case Nil
  then show ?case by (simp split: option.splits)
next
  case (Cons c cs)
  from Cons.prems have i: "is_set s = (False, s)" by (simp add: is_set_def)
  from write_chunks_step [of p t c cs err s] show ?case
  proof (elim disjE exE conjE)
    assume "stop_after s = Some 0"
    with Cons.prems show ?thesis by simp
  next
    fix s1 e
    assume "is_set s = (False, s1)"
      and "write_chunks p t (c # cs) err s = (Inl e, advance_task t (int (length c)) s1)"
    with i Cons.prems show ?thesis by (simp add: advance_task_simps)
  next
    fix s1
    assume "is_set s = (False, s1)"
      and "write_chunks p t (c # cs) err s =
           write_chunks p t cs err (append_bytes p c (advance_task t (int (length c)) s1))"
    with i Cons.prems Cons.IH [of "append_bytes p c (advance_task t (int (length c)) s)"]
    show ?thesis by (simp add: append_bytes_simps advance_task_simps)
  qed
qed

lemma write_chunks_fs_other:
  "p' \<noteq> p \<Longrightarrow> fs (snd (write_chunks p t cs err s)) p' = fs s p'"
proof (induction cs arbitrary: s)
  case Nil
  then show ?case by (simp split: option.splits)
next
  case (Cons c cs)
  from write_chunks_step [of p t c cs err s] show ?case
  proof (elim disjE exE conjE)
    assume "write_chunks p t (c # cs) err s = (Inr (), s)"
    then show ?thesis by simp
  next
    fix s1 e
    assume "is_set s = (False, s1)"
      and "write_chunks p t (c # cs) err s = (Inl e, advance_task t (int (length c)) s1)"
    with is_set_frame [of s False s1] show ?thesis by (simp add: advance_task_simps)
  next
    fix s1
    assume "is_set s = (False, s1)"
      and "write_chunks p t (c # cs) err s =
           write_chunks p t cs err (append_bytes p c (advance_task t (int (length c)) s1))"
    with is_set_frame [of s False s1] Cons.prems
      Cons.IH [of "append_bytes p c (advance_task t (int (length c)) s1)"]
    show ?thesis by (simp add: append_bytes_simps advance_task_simps)
  qed
qed

lemma write_chunks_tasks_other:
  "t' \<noteq> t \<Longrightarrow> tasks (snd (write_chunks p t cs err s)) t' = tasks s t'"
proof (induction cs arbitrary: s)
  case Nil
  then show ?case by (simp split: option.splits)
next
  case (Cons c cs)
  from write_chunks_step [of p t c cs err s] show ?case
  proof (elim disjE exE conjE)
    assume "write_chunks p t (c # cs) err s = (Inr (), s)"
    then show ?thesis by simp
  next
    fix s1 e
    assume "is_set s = (False, s1)"
      and "write_chunks p t (c # cs) err s = (Inl e, advance_task t (int (length c)) s1)"
    with is_set_frame [of s False s1] Cons.prems show ?thesis by (simp add: advance_task_simps)
  next
    fix s1
    assume "is_set s = (False, s1)"
      and "write_chunks p t (c # cs) err s =
           write_chunks p t cs err (append_bytes p c (advance_task t (int (length c)) s1))"
    with is_set_frame [of s False s1] Cons.prems
      Cons.IH [of "append_bytes p c (advance_task t (int (length c)) s1)"]
    show ?thesis by (simp add: append_bytes_simps advance_task_simps)
  qed
qed

text \<open>The loop on a disk that takes what is written to the file.\<close>

lemma write_chunks_fs:
  "fs s p = Some b \<Longrightarrow> write_error s p = None \<Longrightarrow>
   fs (snd (write_chunks p t cs err s)) = (fs s)(p \<mapsto> b @ concat (take (written (stop_after s) cs) cs))"
proof (induction cs arbitrary: s b)
  case Nil
  then show ?case by (auto simp: written_def fun_eq_iff split: option.splits)
next
  case (Cons c cs)
  show ?case
  proof (cases "stop_after s")
    case None
    let ?s' = "append_bytes p c (advance_task t (int (length c)) s)"
    have "fs ?s' p = Some (b @ c)" "write_error ?s' p = None"
      using Cons.prems by (simp_all add: append_bytes_simps advance_task_simps)
    from Cons.IH [OF this] None Cons.prems show ?thesis
      by (auto simp add: write_chunks_clear written_def append_bytes_simps advance_task_simps fun_eq_iff)
  next
    case (Some n)
    show ?thesis
    proof (cases n)
      case 0
      with Some Cons.prems show ?thesis by (auto simp add: write_chunks_set written_def fun_eq_iff)
    next
      case (Suc m)
      let ?s' = "append_bytes p c (advance_task t (int (length c)) (s\<lparr>stop_after := Some m\<rparr>))"
      have "fs ?s' p = Some (b @ c)" "write_error ?s' p = None"
        using Cons.prems by (simp_all add: append_bytes_simps advance_task_simps)
      from Cons.IH [OF this] Some Suc Cons.prems show ?thesis
        by (auto simp add: write_chunks_later written_def append_bytes_simps advance_task_simps fun_eq_iff)
    qed
  qed
qed

lemma write_chunks_bytes:
  "write_error s p = None \<Longrightarrow>
   bytes_written (snd (write_chunks p t cs err s)) =
     bytes_written s + length (concat (take (written (stop_after s) cs) cs))"
proof (induction cs arbitrary: s)
  case Nil
  then show ?case by (simp add: written_def split: option.splits)
next
  case (Cons c cs)
  show ?case
  proof (cases "stop_after s")
    case None
    let ?s' = "append_bytes p c (advance_task t (int (length c)) s)"
    have "write_error ?s' p = None"
      using Cons.prems by (simp add: append_bytes_simps advance_task_simps)
    from Cons.IH [OF this] None Cons.prems show ?thesis
      by (simp add: write_chunks_clear written_def append_bytes_simps advance_task_simps)
  next
    case (Some n)
    show ?thesis
    proof (cases n)
      case 0
      with Some show ?thesis by (simp add: write_chunks_set written_def)
    next
      case (Suc m)
      let ?s' = "append_bytes p c (advance_task t (int (length c)) (s\<lparr>stop_after := Some m\<rparr>))"
      have "write_error ?s' p = None"
        using Cons.prems by (simp add: append_bytes_simps advance_task_simps)
      from Cons.IH [OF this] Some Suc Cons.prems show ?thesis
        by (simp add: write_chunks_later written_def append_bytes_simps advance_task_simps)
    qed
  qed
qed

lemma write_chunks_result:
  "write_error s p = None \<Longrightarrow>
   fst (write_chunks p t cs err s) =
     (case stop_after s of
        None \<Rightarrow> (case err of None \<Rightarrow> Inr () | Some e \<Rightarrow> Inl e)
      | Some n \<Rightarrow> if n < length cs then Inr () else (case err of None \<Rightarrow> Inr () | Some e \<Rightarrow> Inl e))"
proof (induction cs arbitrary: s)
  case Nil
  then show ?case by (simp split: option.splits)
next
  case (Cons c cs)
  show ?case
  proof (cases "stop_after s")
    case None
    let ?s' = "append_bytes p c (advance_task t (int (length c)) s)"
    have "write_error ?s' p = None"
      using Cons.prems by (simp add: append_bytes_simps advance_task_simps)
    from Cons.IH [OF this] None Cons.prems show ?thesis
      by (simp add: write_chunks_clear append_bytes_simps advance_task_simps)
  next
    case (Some n)
    show ?thesis
    proof (cases n)
      case 0
      with Some show ?thesis by (simp add: write_chunks_set)
    next
      case (Suc m)
      let ?s' = "append_bytes p c (advance_task t (int (length c)) (s\<lparr>stop_after := Some m\<rparr>))"
      have "write_error ?s' p = None"
        using Cons.prems by (simp add: append_bytes_simps advance_task_simps)
      from Cons.IH [OF this] Some Suc Cons.prems show ?thesis
        by (simp add: write_chunks_later append_bytes_simps advance_task_simps)
    qed
  qed
qed

lemma write_chunks_stop_after:
  "write_error s p = None \<Longrightarrow>
   stop_after (snd (write_chunks p t cs err s)) =
     map_option (\<lambda>n. n - written (Some n) cs) (stop_after s)"
proof (induction cs arbitrary: s)
  case Nil
  then show ?case by (cases "stop_after s") (simp_all add: written_def split: option.splits)
next
  case (Cons c cs)
  show ?case
  proof (cases "stop_after s")
    case None
    let ?s' = "append_bytes p c (advance_task t (int (length c)) s)"
    have "write_error ?s' p = None"
      using Cons.prems by (simp add: append_bytes_simps advance_task_simps)
    from Cons.IH [OF this] None Cons.prems show ?thesis
      by (simp add: write_chunks_clear append_bytes_simps advance_task_simps)
  next
    case (Some n)
    show ?thesis
    proof (cases n)
      case 0
      with Some show ?thesis by (simp add: write_chunks_set written_def)
    next
      case (Suc m)
      let ?s' = "append_bytes p c (advance_task t (int (length c)) (s\<lparr>stop_after := Some m\<rparr>))"
      have "write_error ?s' p = None"
        using Cons.prems by (simp add: append_bytes_simps advance_task_simps)
      from Cons.IH [OF this] Some Suc Cons.prems show ?thesis
        by (simp add: write_chunks_later append_bytes_simps advance_task_simps written_def)
    qed
  qed
qed

lemma write_chunks_tasks:
  "tasks s t = Some k \<Longrightarrow> write_error s p = None \<Longrightarrow>
   tasks (snd (write_chunks p t cs err s)) =
     (tasks s)(t \<mapsto> k\<lparr>completed :=
        completed k + int (length (concat (take (written (stop_after s) cs) cs)))\<rparr>)"
proof (induction cs arbitrary: s k)
  case Nil
  then show ?case by (auto simp: written_def fun_eq_iff split: option.splits)
next
  case (Cons c cs)
  show ?case
  proof (cases "stop_after s")
    case None
    let ?s' = "append_bytes p c (advance_task t (int (length c)) s)"
    have "tasks ?s' t = Some (k\<lparr>completed := completed k + int (length c)\<rparr>)"
      "write_error ?s' p = None"
      using Cons.prems by (simp_all add: append_bytes_simps advance_task_simps)
    from Cons.IH [OF this] None Cons.prems show ?thesis
      by (auto simp add: write_chunks_clear written_def append_bytes_simps advance_task_simps fun_eq_iff)
  next
    case (Some n)
    show ?thesis
    proof (cases n)
      case 0
      with Some Cons.prems show ?thesis by (auto simp add: write_chunks_set written_def fun_eq_iff)
    next
      case (Suc m)
      let ?s' = "append_bytes p c (advance_task t (int (length c)) (s\<lparr>stop_after := Some m\<rparr>))"
      have "tasks ?s' t = Some (k\<lparr>completed := completed k + int (length c)\<rparr>)"
        "write_error ?s' p = None"
        using Cons.prems by (simp_all add: append_bytes_simps advance_task_simps)
      from Cons.IH [OF this] Some Suc Cons.prems show ?thesis
        by (auto simp add: write_chunks_later written_def append_bytes_simps advance_task_simps fun_eq_iff)
    qed
  qed
qed

subsection \<open>The paths through \<open>download_file\<close>\<close>

lemma download_file_get_raises:
  "net u = Inl e \<Longrightarrow>
   download_file net u name p (w, s) =
     (Inl e, w\<lparr>task_id := Some (next_task s)\<rparr>, snd (add_task name s))"
  by (simp add: download_file_def add_task_def)

lemma download_file_int_raises:
  "net u = Inr r \<Longrightarrow> remote_size r = Inl e \<Longrightarrow>
   download_file net u name p (w, s) =
     (Inl e, w\<lparr>task_id := Some (next_task s)\<rparr>, snd (add_task name s))"
  by (simp add: download_file_def add_task_def)

lemma download_file_stat_raises:
  "net u = Inr r \<Longrightarrow> remote_size r = Inr n \<Longrightarrow> stat_error s p = Some e \<Longrightarrow>
   download_file net u name p (w, s) =
     (Inl e, w\<lparr>task_id := Some (next_task s)\<rparr>, snd (add_task name s))"
  by (simp add: download_file_def add_task_def)

lemma download_file_skip:
  assumes "net u = Inr r" and "remote_size r = Inr n" and "stat_error s p = None"
    and "same_size s p n"
  shows "download_file net u name p (w, s) =
     ((case next_print s of None \<Rightarrow> Inr () | Some e \<Rightarrow> Inl e),
      w\<lparr>task_id := Some (next_task s)\<rparr>,
      snd (console_print (AlreadyDownloaded p) (snd (add_task name s))))"
proof -
  define s1 where "s1 = snd (add_task name s)"
  have a: "add_task name s = (next_task s, s1)" by (simp add: s1_def add_task_def)
  have st: "stat_error s1 p = None" using assms(3) by (simp add: s1_def add_task_simps)
  have ss: "same_size s1 p n" using assms(4) by (simp add: s1_def same_size_add_task)
  obtain x s2 where c: "console_print (AlreadyDownloaded p) s1 = (x, s2)"
    by (cases "console_print (AlreadyDownloaded p) s1")
  from console_print_simps(1) [of "AlreadyDownloaded p" s1] c
  have x: "x = next_print s" by (simp add: s1_def next_print_add_task)
  from c have s2: "s2 = snd (console_print (AlreadyDownloaded p) (snd (add_task name s)))"
    by (simp add: s1_def)
  have "download_file net u name p (w, s) =
     ((case x of None \<Rightarrow> Inr () | Some e \<Rightarrow> Inl e), w\<lparr>task_id := Some (next_task s)\<rparr>, s2)"
    unfolding download_file_def
    by (simp add: a assms(1) assms(2) st ss c split: option.splits)
  then show ?thesis by (simp only: x s2)
qed

lemma download_file_status_raises:
  assumes "net u = Inr r" and "remote_size r = Inr n" and "stat_error s p = None"
    and "\<not> same_size s p n" and "raise_for_status r = Inl e"
  shows "download_file net u name p (w, s) =
     (Inl e, w\<lparr>task_id := Some (next_task s)\<rparr>,
      update_total (next_task s) n (snd (add_task name s)))"
proof -
  define s1 where "s1 = snd (add_task name s)"
  have a: "add_task name s = (next_task s, s1)" by (simp add: s1_def add_task_def)
  have st: "stat_error s1 p = None" using assms(3) by (simp add: s1_def add_task_simps)
  have ss: "\<not> same_size s1 p n" using assms(4) by (simp add: s1_def same_size_add_task)
  have "download_file net u name p (w, s) =
     (Inl e, w\<lparr>task_id := Some (next_task s)\<rparr>, update_total (next_task s) n s1)"
    unfolding download_file_def
    by (simp add: a assms(1) assms(2) st ss assms(5) Let_def)
  then show ?thesis by (simp only: s1_def)
qed

lemma download_file_open_raises:
  assumes "net u = Inr r" and "remote_size r = Inr n" and "stat_error s p = None"
    and "\<not> same_size s p n" and "raise_for_status r = Inr x" and "open_error s p = Some e"
  shows "download_file net u name p (w, s) =
     (Inl e, w\<lparr>task_id := Some (next_task s)\<rparr>,
      update_total (next_task s) n (snd (add_task name s)))"
proof -
  define s1 where "s1 = snd (add_task name s)"
  have a: "add_task name s = (next_task s, s1)" by (simp add: s1_def add_task_def)
  have st: "stat_error s1 p = None" using assms(3) by (simp add: s1_def add_task_simps)
  have ss: "\<not> same_size s1 p n" using assms(4) by (simp add: s1_def same_size_add_task)
  have op: "open_wb p (update_total (next_task s) n s1) = Inl e"
    using assms(6) by (simp add: s1_def open_wb_def update_total_simps add_task_simps)
  have "download_file net u name p (w, s) =
     (Inl e, w\<lparr>task_id := Some (next_task s)\<rparr>, update_total (next_task s) n s1)"
    unfolding download_file_def
    by (simp add: a assms(1) assms(2) st ss assms(5) op Let_def)
  then show ?thesis by (simp only: s1_def)
qed

lemma download_file_streams:
  assumes "net u = Inr r" and "remote_size r = Inr n" and "stat_error s p = None"
    and "\<not> same_size s p n" and "raise_for_status r = Inr x" and "open_error s p = None"
  shows "download_file net u name p (w, s) =
     (fst (write_chunks p (next_task s) (body r) (body_error r) (opened name p n s)),
      w\<lparr>task_id := Some (next_task s)\<rparr>,
      snd (write_chunks p (next_task s) (body r) (body_error r) (opened name p n s)))"
proof -
  define s1 where "s1 = snd (add_task name s)"
  define s3 where "s3 = opened name p n s"
  have a: "add_task name s = (next_task s, s1)" by (simp add: s1_def add_task_def)
  have st: "stat_error s1 p = None" using assms(3) by (simp add: s1_def add_task_simps)
  have ss: "\<not> same_size s1 p n" using assms(4) by (simp add: s1_def same_size_add_task)
  have op: "open_wb p (update_total (next_task s) n s1) =
      Inr (truncate_file p (update_total (next_task s) n s1))"
    using assms(6) by (simp add: s1_def open_wb_def update_total_simps add_task_simps)
  have o: "start_task (next_task s) (truncate_file p (update_total (next_task s) n s1)) = s3"
    by (simp add: s1_def s3_def opened_def)
  have "download_file net u name p (w, s) =
     (fst (write_chunks p (next_task s) (body r) (body_error r) s3),
      w\<lparr>task_id := Some (next_task s)\<rparr>,
      snd (write_chunks p (next_task s) (body r) (body_error r) s3))"
    unfolding download_file_def
    by (simp add: a assms(1) assms(2) st ss assms(5) op o Let_def split: prod.splits)
  then show ?thesis by (simp only: s3_def)
qed

lemma download_file_cases
  [case_names get_raises int_raises stat_raises skip status_raises open_raises streams]:
  assumes "\<And>e. net u = Inl e \<Longrightarrow> P"
    and "\<And>r e. net u = Inr r \<Longrightarrow> remote_size r = Inl e \<Longrightarrow> P"
    and "\<And>r n e. net u = Inr r \<Longrightarrow> remote_size r = Inr n \<Longrightarrow> stat_error s p = Some e \<Longrightarrow> P"
    and "\<And>r n. net u = Inr r \<Longrightarrow> remote_size r = Inr n \<Longrightarrow> stat_error s p = None \<Longrightarrow>
           same_size s p n \<Longrightarrow> P"
    and "\<And>r n e. net u = Inr r \<Longrightarrow> remote_size r = Inr n \<Longrightarrow> stat_error s p = None \<Longrightarrow>
           \<not> same_size s p n \<Longrightarrow> raise_for_status r = Inl e \<Longrightarrow> P"
    and "\<And>r n e. net u = Inr r \<Longrightarrow> remote_size r = Inr n \<Longrightarrow> stat_error s p = None \<Longrightarrow>
           \<not> same_size s p n \<Longrightarrow> raise_for_status r = Inr () \<Longrightarrow> open_error s p = Some e \<Longrightarrow> P"
    and "\<And>r n. net u = Inr r \<Longrightarrow> remote_size r = Inr n \<Longrightarrow> stat_error s p = None \<Longrightarrow>
           \<not> same_size s p n \<Longrightarrow> raise_for_status r = Inr () \<Longrightarrow> open_error s p = None \<Longrightarrow> P"
  shows P
proof (cases "net u")
  case (Inl e)
  then show ?thesis by (rule assms(1))
next
  case (Inr r)
  note r = this
  show ?thesis
  proof (cases "remote_size r")
    case (Inl e)
    with r show ?thesis by (rule assms(2))
  next
    case (Inr n)
    note n = this
    show ?thesis
    proof (cases "stat_error s p")
      case (Some e)
      with r n show ?thesis by (rule assms(3))
    next
      case None
      note st = this
      show ?thesis
      proof (cases "same_size s p n")
        case True
        with r n st show ?thesis by (rule assms(4))
      next
        case False
        note ns = this
        show ?thesis
        proof (cases "raise_for_status r")
          case (Inl e)
          with r n st ns show ?thesis by (rule assms(5))
        next
          case (Inr x)
          then have ok: "raise_for_status r = Inr ()" by simp
          show ?thesis
          proof (cases "open_error s p")
            case (Some e)
            with r n st ns ok show ?thesis by (rule assms(6))
          next
            case None
            with r n st ns ok show ?thesis by (rule assms(7))
          qed
        qed
      qed
    qed
  qed
qed

lemmas download_file_paths =
  download_file_get_raises download_file_int_raises download_file_stat_raises
  download_file_skip download_file_status_raises download_file_open_raises
  download_file_streams

lemma download_file_worker:
  "fst (snd (download_file net u name p (w, s))) = w\<lparr>task_id := Some (next_task s)\<rparr>"
  by (cases rule: download_file_cases [where net=net and u=u and s=s and p=p])
    (simp_all add: download_file_paths)

lemma download_file_queue:
  "queue (snd (snd (download_file net u name p (w, s)))) = queue s"
  by (cases rule: download_file_cases [where net=net and u=u and s=s and p=p])
    (simp_all add: download_file_paths write_chunks_queue world_simps opened_simps
      console_print_simps)

lemma download_file_queue_res:
  "download_file net u name p (w, s) = (res, w2, s2) \<Longrightarrow> queue s2 = queue s"
  using download_file_queue [of net u name p w s] by simp

lemma download_file_worker_res:
  "download_file net u name p (w, s) = (res, w2, s2) \<Longrightarrow> w2 = w\<lparr>task_id := Some (next_task s)\<rparr>"
  using download_file_worker [of net u name p w s] by simp

subsection \<open>The passes of the loop of \<open>run\<close>\<close>

lemma run_step_cancelled:
  "is_set s = (True, s1) \<Longrightarrow>
   run_step slugify net (w, s) = (Cancelled, w\<lparr>task_id := None, is_running := False\<rparr>, s1)"
  by (simp add: run_step_def)

lemma run_step_blocked:
  "is_set s = (False, s1) \<Longrightarrow> queue s1 = [] \<Longrightarrow>
   run_step slugify net (w, s) = (Blocked, w\<lparr>task_id := None\<rparr>, s1)"
  by (simp add: run_step_def)

lemma run_step_sentinel:
  "is_set s = (False, s1) \<Longrightarrow> queue s1 = Sentinel # q \<Longrightarrow>
   run_step slugify net (w, s) =
     (GotSentinel, w\<lparr>task_id := None, is_running := False\<rparr>, s1\<lparr>queue := q\<rparr>)"
  by (simp add: run_step_def finally_block_def)

lemma run_step_job:
  assumes "is_set s = (False, s1)" "queue s1 = Job e # q"
  shows "run_step slugify net (w, s) =
    (case download_file net (url e) (label slugify w e) (target slugify w e)
            (w\<lparr>task_id := None\<rparr>, s1\<lparr>queue := q\<rparr>) of
       (Inr x, w2, s2) \<Rightarrow> (Returned, finally_block (w2, s2))
     | (Inl err, w2, s2) \<Rightarrow>
         (case console_print (Error err) s2 of
            (None, s3) \<Rightarrow> (Raised err, finally_block (w2\<lparr>is_running := False\<rparr>, s3))
          | (Some print_err, s3) \<Rightarrow>
              (Escaped print_err, finally_block (w2\<lparr>crashed := True\<rparr>, s3))))"
  using assms by (simp add: run_step_def label_def target_def Let_def)

lemma run_step_returned:
  assumes "is_set s = (False, s1)" and "queue s1 = Job e # q"
    and "download_file net (url e) (label slugify w e) (target slugify w e)
           (w\<lparr>task_id := None\<rparr>, s1\<lparr>queue := q\<rparr>) = (Inr x, w2, s2)"
  shows "run_step slugify net (w, s) = (Returned, finally_block (w2, s2))"
  by (simp add: run_step_job [OF assms(1) assms(2)] assms(3))

lemma run_step_raised:
  assumes "is_set s = (False, s1)" and "queue s1 = Job e # q"
    and "download_file net (url e) (label slugify w e) (target slugify w e)
           (w\<lparr>task_id := None\<rparr>, s1\<lparr>queue := q\<rparr>) = (Inl err, w2, s2)"
    and "next_print s2 = None"
  shows "run_step slugify net (w, s) =
     (Raised err, finally_block (w2\<lparr>is_running := False\<rparr>, snd (console_print (Error err) s2)))"
proof -
  obtain x s3 where c: "console_print (Error err) s2 = (x, s3)"
    by (cases "console_print (Error err) s2")
  from console_print_simps(1) [of "Error err" s2] c assms(4) have "x = None" by simp
  with c show ?thesis
    by (simp add: run_step_job [OF assms(1) assms(2)] assms(3))
qed

lemma run_step_escaped:
  assumes "is_set s = (False, s1)" and "queue s1 = Job e # q"
    and "download_file net (url e) (label slugify w e) (target slugify w e)
           (w\<lparr>task_id := None\<rparr>, s1\<lparr>queue := q\<rparr>) = (Inl err, w2, s2)"
    and "next_print s2 = Some print_err"
  shows "run_step slugify net (w, s) =
     (Escaped print_err, finally_block (w2\<lparr>crashed := True\<rparr>, snd (console_print (Error err) s2)))"
proof -
  obtain x s3 where c: "console_print (Error err) s2 = (x, s3)"
    by (cases "console_print (Error err) s2")
  from console_print_simps(1) [of "Error err" s2] c assms(4) have "x = Some print_err" by simp
  with c show ?thesis
    by (simp add: run_step_job [OF assms(1) assms(2)] assms(3))
qed

text \<open>How a pass that takes a job ends, and in which state, by the three ways it can go.\<close>

lemma run_step_job_cases [consumes 2, case_names returned raised escaped]:
  assumes "is_set s = (False, s1)" and "queue s1 = Job e # q"
    and "\<And>w2 s2. download_file net (url e) (label slugify w e) (target slugify w e)
           (w\<lparr>task_id := None\<rparr>, s1\<lparr>queue := q\<rparr>) = (Inr (), w2, s2) \<Longrightarrow>
         run_step slugify net (w, s) = (Returned, finally_block (w2, s2)) \<Longrightarrow> P"
    and "\<And>err w2 s2. download_file net (url e) (label slugify w e) (target slugify w e)
           (w\<lparr>task_id := None\<rparr>, s1\<lparr>queue := q\<rparr>) = (Inl err, w2, s2) \<Longrightarrow>
         next_print s2 = None \<Longrightarrow>
         run_step slugify net (w, s) =
           (Raised err, finally_block (w2\<lparr>is_running := False\<rparr>, snd (console_print (Error err) s2)))
         \<Longrightarrow> P"
    and "\<And>err print_err w2 s2. download_file net (url e) (label slugify w e) (target slugify w e)
           (w\<lparr>task_id := None\<rparr>, s1\<lparr>queue := q\<rparr>) = (Inl err, w2, s2) \<Longrightarrow>
         next_print s2 = Some print_err \<Longrightarrow>
         run_step slugify net (w, s) =
           (Escaped print_err, finally_block (w2\<lparr>crashed := True\<rparr>, snd (console_print (Error err) s2)))
         \<Longrightarrow> P"
  shows P
proof -
  obtain res w2 s2 where d: "download_file net (url e) (label slugify w e) (target slugify w e)
      (w\<lparr>task_id := None\<rparr>, s1\<lparr>queue := q\<rparr>) = (res, w2, s2)"
    by (rule prod_cases3)
  show ?thesis
  proof (cases res)
    case (Inr x)
    with d have d': "download_file net (url e) (label slugify w e) (target slugify w e)
      (w\<lparr>task_id := None\<rparr>, s1\<lparr>queue := q\<rparr>) = (Inr (), w2, s2)" by simp
    from d' run_step_returned [OF assms(1) assms(2) d'] show ?thesis by (rule assms(3))
  next
    case (Inl err)
    with d have d': "download_file net (url e) (label slugify w e) (target slugify w e)
      (w\<lparr>task_id := None\<rparr>, s1\<lparr>queue := q\<rparr>) = (Inl err, w2, s2)" by simp
    show ?thesis
    proof (cases "next_print s2")
      case None
      from d' None run_step_raised [OF assms(1) assms(2) d' None] show ?thesis by (rule assms(4))
    next
      case (Some print_err)
      from d' Some run_step_escaped [OF assms(1) assms(2) d' Some] show ?thesis by (rule assms(5))
    qed
  qed
qed

lemma run_step_measure:
  assumes "fst (run_step slugify net (w, s)) \<noteq> Blocked"
  shows "length (queue (snd (snd (run_step slugify net (w, s)))))
           + (if is_running (fst (snd (run_step slugify net (w, s)))) then 1 else 0)
         < length (queue s) + (if is_running w then 1 else 0) \<or> \<not> is_running w"
proof -
  obtain b s1 where b: "is_set s = (b, s1)" by (cases "is_set s")
  with is_set_queue [of s] have q: "queue s1 = queue s" by simp
  show ?thesis
  proof (cases b)
    case True
    with b have "run_step slugify net (w, s) = (Cancelled, w\<lparr>task_id := None, is_running := False\<rparr>, s1)"
      by (simp add: run_step_cancelled)
    with q show ?thesis by simp
  next
    case False
    with b have nb: "is_set s = (False, s1)" by simp
    show ?thesis
    proof (cases "queue s1")
      case Nil
      with nb have "fst (run_step slugify net (w, s)) = Blocked"
        by (simp add: run_step_blocked)
      with assms show ?thesis by simp
    next
      case (Cons i q')
      with q have len: "length (queue s) = Suc (length q')" by (metis length_Cons)
      show ?thesis
      proof (cases i)
        case Sentinel
        with nb Cons have "run_step slugify net (w, s) =
            (GotSentinel, w\<lparr>task_id := None, is_running := False\<rparr>, s1\<lparr>queue := q'\<rparr>)"
          by (simp add: run_step_sentinel)
        with len show ?thesis by simp
      next
        case (Job e)
        with Cons have qj: "queue s1 = Job e # q'" by simp
        from nb qj show ?thesis
        proof (cases rule: run_step_job_cases [where net=net and slugify=slugify and w=w])
          case (returned w2 s2)
          from download_file_queue_res [OF returned(1)] have q2: "queue s2 = q'" by simp
          from download_file_worker_res [OF returned(1)] have "is_running w2 = is_running w" by simp
          with returned(2) len q2 show ?thesis
            by (simp add: finally_block_worker finally_block_queue)
        next
          case (raised err w2 s2)
          from download_file_queue_res [OF raised(1)] have q2: "queue s2 = q'" by simp
          with raised(3) len show ?thesis
            by (simp add: finally_block_worker finally_block_queue console_print_simps)
        next
          case (escaped err print_err w2 s2)
          from download_file_queue_res [OF escaped(1)] have q2: "queue s2 = q'" by simp
          from download_file_worker_res [OF escaped(1)] have "is_running w2 = is_running w" by simp
          with escaped(3) len q2 show ?thesis
            by (simp add: finally_block_worker finally_block_queue console_print_simps)
        qed
      qed
    qed
  qed
qed

termination run
proof (relation "measure (\<lambda>(slugify, net, ws). length (queue (snd ws)) + (if is_running (fst ws) then 1 else 0))")
  show "wf (measure (\<lambda>(slugify, net, ws). length (queue (snd ws)) + (if is_running (fst ws) then 1 else 0)))"
    by simp
next
  fix slugify :: "string \<Rightarrow> string" and net :: net and ws :: "worker \<times> world" and x
  assume r: "\<not> \<not> is_running (fst ws)" and x: "x = run_step slugify net ws"
    and nb: "\<not> (fst x = Blocked \<or> crashed (fst (snd x)))"
  obtain w s where ws: "ws = (w, s)" by (cases ws)
  from nb have "fst x \<noteq> Blocked" by simp
  with run_step_measure [of slugify net w s] x ws r
  show "((slugify, net, snd x), slugify, net, ws)
      \<in> measure (\<lambda>(slugify, net, ws). length (queue (snd ws)) + (if is_running (fst ws) then 1 else 0))"
    by simp
qed

declare run.simps [simp del]

lemma run_not_running: "\<not> is_running w \<Longrightarrow> run slugify net (w, s) = ([], w, s)"
  by (subst run.simps) simp

lemma run_last:
  assumes "is_running w" "run_step slugify net (w, s) = (oc, w', s')" "oc \<noteq> Blocked"
    "\<not> is_running w'"
  shows "run slugify net (w, s) = ([oc], w', s')"
  using assms by (subst run.simps) (simp add: Let_def run_not_running)

lemma run_blocked:
  assumes "is_running w" "run_step slugify net (w, s) = (Blocked, w', s')"
  shows "run slugify net (w, s) = ([Blocked], w', s')"
  using assms by (subst run.simps) (simp add: Let_def)

lemma run_crashed:
  assumes "is_running w" "run_step slugify net (w, s) = (oc, w', s')" "crashed w'"
  shows "run slugify net (w, s) = ([oc], w', s')"
  using assms by (subst run.simps) (simp add: Let_def)

lemma run_next:
  assumes "is_running w" "run_step slugify net (w, s) = (oc, w', s')" "oc \<noteq> Blocked"
    "\<not> crashed w'"
  shows "run slugify net (w, s) =
    (oc # fst (run slugify net (w', s')), snd (run slugify net (w', s')))"
  using assms by (subst run.simps) (simp add: Let_def split: prod.splits)

subsection \<open>What \<open>download_file\<close> changes\<close>

lemma download_file_overall:
  "overall (snd (snd (download_file net u name p (w, s)))) = overall s"
  by (cases rule: download_file_cases [where net=net and u=u and s=s and p=p])
    (simp_all add: download_file_paths world_simps opened_simps write_chunks_frame
      console_print_simps)

lemma download_file_next_task:
  "next_task (snd (snd (download_file net u name p (w, s)))) = Suc (next_task s)"
  by (cases rule: download_file_cases [where net=net and u=u and s=s and p=p])
    (simp_all add: download_file_paths world_simps opened_simps write_chunks_frame
      console_print_simps)


lemma download_file_print_errors:
  "print_errors s = [] \<Longrightarrow> print_errors (snd (snd (download_file net u name p (w, s)))) = []"
  by (cases rule: download_file_cases [where net=net and u=u and s=s and p=p])
    (simp_all add: download_file_paths world_simps opened_simps write_chunks_frame
      console_print_simps)

lemma download_file_fs_other:
  "p' \<noteq> p \<Longrightarrow> fs (snd (snd (download_file net u name p (w, s)))) p' = fs s p'"
  by (cases rule: download_file_cases [where net=net and u=u and s=s and p=p])
    (simp_all add: download_file_paths world_simps opened_simps write_chunks_fs_other
      console_print_simps)

lemma download_file_stop_none:
  "stop_after s = None \<Longrightarrow> stop_after (snd (snd (download_file net u name p (w, s)))) = None"
  by (cases rule: download_file_cases [where net=net and u=u and s=s and p=p])
    (simp_all add: download_file_paths world_simps opened_simps write_chunks_stop_none
      console_print_simps)

lemma download_file_streams_state:
  assumes "net u = Inr r" and "remote_size r = Inr n" and "stat_error s p = None"
    and "\<not> same_size s p n" and "raise_for_status r = Inr ()" and "open_error s p = None"
    and "write_error s p = None"
  shows "fst (download_file net u name p (w, s)) =
           (case stop_after s of
              None \<Rightarrow> (case body_error r of None \<Rightarrow> Inr () | Some e \<Rightarrow> Inl e)
            | Some k \<Rightarrow> if k < length (body r) then Inr ()
                        else (case body_error r of None \<Rightarrow> Inr () | Some e \<Rightarrow> Inl e))"
    and "fs (snd (snd (download_file net u name p (w, s)))) =
           (fs s)(p \<mapsto> concat (take (written (stop_after s) (body r)) (body r)))"
    and "console (snd (snd (download_file net u name p (w, s)))) = console s"
    and "stop_after (snd (snd (download_file net u name p (w, s)))) =
           map_option (\<lambda>k. k - written (Some k) (body r)) (stop_after s)"
    and "tasks (snd (snd (download_file net u name p (w, s)))) =
           (tasks s)(next_task s \<mapsto>
              \<lparr>filename = name, total = n,
               completed = int (length (concat (take (written (stop_after s) (body r)) (body r)))),
               started = True\<rparr>)"
    and "bytes_written (snd (snd (download_file net u name p (w, s)))) =
           bytes_written s + length (concat (take (written (stop_after s) (body r)) (body r)))"
    and "print_errors (snd (snd (download_file net u name p (w, s)))) = print_errors s"
proof -
  note d = download_file_streams [where net=net and u=u and name=name and w=w, OF assms(1-6)]
  have f: "fs (opened name p n s) p = Some []" by (simp add: opened_simps)
  have we: "write_error (opened name p n s) p = None" using assms(7) by (simp add: opened_simps)
  have t: "tasks (opened name p n s) (next_task s) =
      Some \<lparr>filename = name, total = n, completed = 0, started = True\<rparr>"
    by (simp add: opened_simps)
  show "fst (download_file net u name p (w, s)) =
           (case stop_after s of
              None \<Rightarrow> (case body_error r of None \<Rightarrow> Inr () | Some e \<Rightarrow> Inl e)
            | Some k \<Rightarrow> if k < length (body r) then Inr ()
                        else (case body_error r of None \<Rightarrow> Inr () | Some e \<Rightarrow> Inl e))"
    by (simp add: d write_chunks_result [OF we] opened_simps)
  show "fs (snd (snd (download_file net u name p (w, s)))) =
           (fs s)(p \<mapsto> concat (take (written (stop_after s) (body r)) (body r)))"
    by (simp add: d write_chunks_fs [OF f we] opened_simps)
  show "console (snd (snd (download_file net u name p (w, s)))) = console s"
    by (simp add: d write_chunks_frame opened_simps)
  show "stop_after (snd (snd (download_file net u name p (w, s)))) =
           map_option (\<lambda>k. k - written (Some k) (body r)) (stop_after s)"
    by (simp add: d write_chunks_stop_after [OF we] opened_simps)
  show "tasks (snd (snd (download_file net u name p (w, s)))) =
           (tasks s)(next_task s \<mapsto>
              \<lparr>filename = name, total = n,
               completed = int (length (concat (take (written (stop_after s) (body r)) (body r)))),
               started = True\<rparr>)"
    by (simp add: d write_chunks_tasks [OF t we] opened_simps)
  show "bytes_written (snd (snd (download_file net u name p (w, s)))) =
           bytes_written s + length (concat (take (written (stop_after s) (body r)) (body r)))"
    by (simp add: d write_chunks_bytes [OF we] opened_simps)
  show "print_errors (snd (snd (download_file net u name p (w, s)))) = print_errors s"
    by (simp add: d write_chunks_frame opened_simps)
qed

section \<open>Claims C7 and C1: the size check and HTTP errors\<close>

lemma next_print_cong: "print_errors s' = print_errors s \<Longrightarrow> next_print s' = next_print s"
  by (simp add: next_print_def)

lemma run_step_skip:
  assumes "is_set s = (False, s1)" and "queue s1 = Job e # q"
    and "net (url e) = Inr r" and "remote_size r = Inr n"
    and "stat_error s1 (target slugify w e) = None"
    and "same_size s1 (target slugify w e) n"
    and "next_print s1 = None"
  shows "run_step slugify net (w, s) =
      (Returned, finally_block (w\<lparr>task_id := Some (next_task s1)\<rparr>,
         snd (console_print (AlreadyDownloaded (target slugify w e))
                (snd (add_task (label slugify w e) (s1\<lparr>queue := q\<rparr>))))))"
proof -
  let ?s0 = "s1\<lparr>queue := q\<rparr>"
  have st: "stat_error ?s0 (target slugify w e) = None" using assms(5) by simp
  have ss: "same_size ?s0 (target slugify w e) n" using assms(6) by (simp add: same_size_queue)
  have np: "next_print ?s0 = None" using assms(7) by (simp add: next_print_queue)
  from download_file_skip [where net=net and u="url e" and w="w\<lparr>task_id := None\<rparr>"
      and name="label slugify w e", OF assms(3) assms(4) st ss]
  have d: "download_file net (url e) (label slugify w e) (target slugify w e)
             (w\<lparr>task_id := None\<rparr>, ?s0) =
           (Inr (), w\<lparr>task_id := Some (next_task s1)\<rparr>,
            snd (console_print (AlreadyDownloaded (target slugify w e))
                   (snd (add_task (label slugify w e) ?s0))))"
    by (simp add: np)
  show ?thesis by (rule run_step_returned [OF assms(1) assms(2) d])
qed

text \<open>
  C7. The size check of \<open>download_file\<close> comes before \<open>raise_for_status\<close>. When the
  flag is clear at the loop entry, a job is at the head of the queue, and the response to
  its request, whatever its status code (also one for which \<open>raise_for_status\<close> would
  raise), carries a \<open>Content-Length\<close> equal to the size of the file already at the target
  path, and neither the size test nor the print of the line raises, then the pass ends by
  a normal return: the console gets the line "already downloaded" and no error line, the
  worker keeps running, the overall task advances by one, no file changes, nothing is
  written, and the job has left the queue.
\<close>

theorem skip_before_status_check:
  assumes "is_running w" and "is_set s = (False, s1)" and "queue s1 = Job e # q"
    and "net (url e) = Inr r" and "remote_size r = Inr n"
    and "stat_error s1 (target slugify w e) = None"
    and "same_size s1 (target slugify w e) n"
    and "next_print s1 = None"
  shows "fst (run_step slugify net (w, s)) = Returned \<and>
         is_running (fst (snd (run_step slugify net (w, s)))) \<and>
         crashed (fst (snd (run_step slugify net (w, s)))) = crashed w \<and>
         console (snd (snd (run_step slugify net (w, s)))) =
           console s @ [AlreadyDownloaded (target slugify w e)] \<and>
         overall (snd (snd (run_step slugify net (w, s)))) = Suc (overall s) \<and>
         fs (snd (snd (run_step slugify net (w, s)))) = fs s \<and>
         bytes_written (snd (snd (run_step slugify net (w, s)))) = bytes_written s \<and>
         queue (snd (snd (run_step slugify net (w, s)))) = q"
proof -
  note r = run_step_skip [where net=net and slugify=slugify and w=w, OF assms(2-8)]
  from is_set_frame [OF assms(2)]
  have f: "fs s1 = fs s" "console s1 = console s" "overall s1 = overall s"
    "bytes_written s1 = bytes_written s"
    by simp_all
  have np: "next_print (snd (add_task (label slugify w e) (s1\<lparr>queue := q\<rparr>))) = None"
    using assms(8) by (simp add: next_print_add_task next_print_queue)
  show ?thesis
    using assms(1) f np
    by (simp add: r finally_block_simps console_print_simps add_task_simps)
qed

lemma py_int_3: "py_int ''3'' = Inr 3"
  by (simp add: py_int_def max_str_digits_def strip_def is_space_def is_digit_def digit_val_def)

lemma py_int_6: "py_int ''6'' = Inr 6"
  by (simp add: py_int_def max_str_digits_def strip_def is_space_def is_digit_def digit_val_def)

lemma ex_py_int_9: "py_int ''9'' = Inr 9"
  by (simp add: py_int_def max_str_digits_def strip_def is_space_def is_digit_def digit_val_def)

lemma py_int_examples: "py_int '' -1_024 '' = Inr (- 1024)" "py_int ''12a'' = Inl (ValueError ''12a'')"
   "py_int ''1__2'' = Inl (ValueError ''1__2'')" "py_int [] = Inl (ValueError [])"
   "py_int [CHR 0x1C, CHR ''3''] = Inl (ValueError [CHR 0x1C, CHR ''3''])"
   "py_int [CHR 0x85, CHR ''3'', CHR 0xA0] = Inr 3"
  by (simp_all add: py_int_def max_str_digits_def strip_def is_space_def is_digit_def digit_val_def)

lemma py_int_too_long: "py_int (replicate 4301 CHR ''1'') = Inl (ValueError (replicate 4301 CHR ''1''))"
  by (simp add: py_int_def max_str_digits_def is_digit_def)

theorem skip_before_status_check_witness:
  "raise_for_status (ex_response 404 (Some ''3'') [''err'']) = Inl (HTTPError 404) \<and>
   fst (run_step ex_slugify ex_net (ex_worker, ex7_world)) = Returned \<and>
   is_running (fst (snd (run_step ex_slugify ex_net (ex_worker, ex7_world)))) \<and>
   console (snd (snd (run_step ex_slugify ex_net (ex_worker, ex7_world)))) =
     [AlreadyDownloaded [''home'', ''output'', ''intro-to-x.mp4'']] \<and>
   overall (snd (snd (run_step ex_slugify ex_net (ex_worker, ex7_world)))) = 1 \<and>
   fs (snd (snd (run_step ex_slugify ex_net (ex_worker, ex7_world)))) =
     [[''home'', ''output'', ''intro-to-x.mp4''] \<mapsto> ''old''] \<and>
   bytes_written (snd (snd (run_step ex_slugify ex_net (ex_worker, ex7_world)))) = 0 \<and>
   queue (snd (snd (run_step ex_slugify ex_net (ex_worker, ex7_world)))) = [Sentinel]"
proof -
  let ?e = "ex_job ''intro to x'' ''http://h/b.mp4''"
  have 1: "is_running ex_worker" by (simp add: ex_worker_def)
  have 2: "is_set ex7_world = (False, ex7_world)"
    by (simp add: is_set_def ex7_world_def ex_world_def)
  have 3: "queue ex7_world = Job ?e # [Sentinel]" by (simp add: ex7_world_def ex_world_def)
  have 4: "ex_net (url ?e) = Inr (ex_response 404 (Some ''3'') [''err''])"
    by (simp add: ex_net_def ex_job_def)
  have 5: "remote_size (ex_response 404 (Some ''3'') [''err'']) = Inr 3"
    by (simp add: remote_size_def ex_response_def py_int_3)
  have t: "target ex_slugify ex_worker ?e = [''home'', ''output'', ''intro-to-x.mp4'']"
    by (simp add: target_def ex_slugify_def ex_worker_def ex_job_def)
  have 6: "stat_error ex7_world (target ex_slugify ex_worker ?e) = None"
    by (simp add: ex7_world_def ex_world_def)
  have 7: "same_size ex7_world (target ex_slugify ex_worker ?e) 3"
    by (simp add: t same_size_def ex7_world_def ex_world_def)
  have 8: "next_print ex7_world = None"
    by (simp add: next_print_def ex7_world_def ex_world_def)
  have 9: "raise_for_status (ex_response 404 (Some ''3'') [''err'']) = Inl (HTTPError 404)"
    by (simp add: raise_for_status_def ex_response_def)
  from skip_before_status_check [where net=ex_net and slugify=ex_slugify, OF 1 2 3 4 5 6 7 8] 9
  show ?thesis
    by (simp add: t) (simp add: ex7_world_def ex_world_def)
qed

subsection \<open>An HTTP error status\<close>

lemma raise_for_status_iff:
  "raise_for_status r = Inl err \<longleftrightarrow>
     400 \<le> status_code r \<and> status_code r < 600 \<and> err = HTTPError (status_code r)"
  by (auto simp: raise_for_status_def)

lemma download_file_job_status_raises:
  assumes "net (url e) = Inr r" and "remote_size r = Inr n"
    and "stat_error s1 (target slugify w e) = None"
    and "\<not> same_size s1 (target slugify w e) n"
    and "raise_for_status r = Inl err"
  shows "download_file net (url e) (label slugify w e) (target slugify w e)
             (w\<lparr>task_id := None\<rparr>, s1\<lparr>queue := q\<rparr>) =
        (Inl err, w\<lparr>task_id := Some (next_task s1)\<rparr>,
         update_total (next_task s1) n (snd (add_task (label slugify w e) (s1\<lparr>queue := q\<rparr>))))"
proof -
  let ?s0 = "s1\<lparr>queue := q\<rparr>"
  have st: "stat_error ?s0 (target slugify w e) = None" using assms(3) by simp
  have ss: "\<not> same_size ?s0 (target slugify w e) n" using assms(4) by (simp add: same_size_queue)
  from download_file_status_raises [where net=net and u="url e" and w="w\<lparr>task_id := None\<rparr>"
      and name="label slugify w e", OF assms(1) assms(2) st ss assms(5)]
  show ?thesis by simp
qed

lemma run_step_status_raises:
  assumes "is_set s = (False, s1)" and "queue s1 = Job e # q"
    and "net (url e) = Inr r" and "remote_size r = Inr n"
    and "stat_error s1 (target slugify w e) = None"
    and "\<not> same_size s1 (target slugify w e) n"
    and "raise_for_status r = Inl err"
  shows "next_print s1 = None \<Longrightarrow>
         run_step slugify net (w, s) =
           (Raised err,
            finally_block
              (w\<lparr>task_id := Some (next_task s1), is_running := False\<rparr>,
               snd (console_print (Error err)
                 (update_total (next_task s1) n
                    (snd (add_task (label slugify w e) (s1\<lparr>queue := q\<rparr>)))))))"
    and "next_print s1 = Some print_err \<Longrightarrow>
         run_step slugify net (w, s) =
           (Escaped print_err,
            finally_block
              (w\<lparr>task_id := Some (next_task s1), crashed := True\<rparr>,
               snd (console_print (Error err)
                 (update_total (next_task s1) n
                    (snd (add_task (label slugify w e) (s1\<lparr>queue := q\<rparr>)))))))"
proof -
  let ?s2 = "update_total (next_task s1) n (snd (add_task (label slugify w e) (s1\<lparr>queue := q\<rparr>)))"
  note d = download_file_job_status_raises [where net=net and slugify=slugify and w=w and q=q,
      OF assms(3-7)]
  have np: "next_print ?s2 = next_print s1"
    by (rule next_print_cong) (simp add: update_total_simps add_task_simps)
  show "run_step slugify net (w, s) =
           (Raised err,
            finally_block
              (w\<lparr>task_id := Some (next_task s1), is_running := False\<rparr>,
               snd (console_print (Error err) ?s2)))"
    if "next_print s1 = None"
    using run_step_raised [OF assms(1) assms(2) d] np that by simp
  show "run_step slugify net (w, s) =
           (Escaped print_err,
            finally_block
              (w\<lparr>task_id := Some (next_task s1), crashed := True\<rparr>,
               snd (console_print (Error err) ?s2)))"
    if "next_print s1 = Some print_err"
    using run_step_escaped [OF assms(1) assms(2) d] np that by simp
qed

lemma run_status_raises:
  assumes "is_running w" and "is_set s = (False, s1)" and "queue s1 = Job e # q"
    and "net (url e) = Inr r" and "remote_size r = Inr n"
    and "stat_error s1 (target slugify w e) = None"
    and "\<not> same_size s1 (target slugify w e) n"
    and "raise_for_status r = Inl err"
  shows "next_print s1 = None \<Longrightarrow>
         run slugify net (w, s) =
           ([Raised err],
            finally_block
              (w\<lparr>task_id := Some (next_task s1), is_running := False\<rparr>,
               snd (console_print (Error err)
                 (update_total (next_task s1) n
                    (snd (add_task (label slugify w e) (s1\<lparr>queue := q\<rparr>)))))))"
    and "next_print s1 = Some print_err \<Longrightarrow>
         run slugify net (w, s) =
           ([Escaped print_err],
            finally_block
              (w\<lparr>task_id := Some (next_task s1), crashed := True\<rparr>,
               snd (console_print (Error err)
                 (update_total (next_task s1) n
                    (snd (add_task (label slugify w e) (s1\<lparr>queue := q\<rparr>)))))))"
proof -
  note rs = run_step_status_raises [where net=net and slugify=slugify and w=w,
      OF assms(2-8)]
  show "run slugify net (w, s) =
           ([Raised err],
            finally_block
              (w\<lparr>task_id := Some (next_task s1), is_running := False\<rparr>,
               snd (console_print (Error err)
                 (update_total (next_task s1) n
                    (snd (add_task (label slugify w e) (s1\<lparr>queue := q\<rparr>)))))))"
    if np: "next_print s1 = None"
    by (subst finally_block_eq, rule run_last [OF assms(1)])
       (simp_all add: rs(1) [OF np] finally_block_eq [symmetric])
  show "run slugify net (w, s) =
           ([Escaped print_err],
            finally_block
              (w\<lparr>task_id := Some (next_task s1), crashed := True\<rparr>,
               snd (console_print (Error err)
                 (update_total (next_task s1) n
                    (snd (add_task (label slugify w e) (s1\<lparr>queue := q\<rparr>)))))))"
    if np: "next_print s1 = Some print_err"
    by (subst finally_block_eq, rule run_crashed [OF assms(1)])
       (simp_all add: rs(2) [OF np] finally_block_eq [symmetric])
qed

lemma ex1_facts:
  "is_running ex_worker"
  "is_set ex1_world = (False, ex1_world)"
  "queue ex1_world = Job (ex_job ''broken'' ''http://h/b.mp4'') #
     [Job (ex_job ''intro to x'' ''http://h/a.mp4''), Sentinel]"
  "ex_net (url (ex_job ''broken'' ''http://h/b.mp4'')) = Inr (ex_response 404 (Some ''3'') [''err''])"
  "remote_size (ex_response 404 (Some ''3'') [''err'']) = Inr 3"
  "stat_error ex1_world (target ex_slugify ex_worker (ex_job ''broken'' ''http://h/b.mp4'')) = None"
  "\<not> same_size ex1_world (target ex_slugify ex_worker (ex_job ''broken'' ''http://h/b.mp4'')) 3"
  "raise_for_status (ex_response 404 (Some ''3'') [''err'']) = Inl (HTTPError 404)"
  by (simp_all add: ex_worker_def is_set_def ex1_world_def ex_world_def ex_net_def ex_job_def
      remote_size_def ex_response_def py_int_3 same_size_def raise_for_status_def)

lemma ex1_markup_facts:
  "is_running ex_worker"
  "is_set (ex_markup ex1_world) = (False, ex_markup ex1_world)"
  "queue (ex_markup ex1_world) = Job (ex_job ''broken'' ''http://h/b.mp4'') #
     [Job (ex_job ''intro to x'' ''http://h/a.mp4''), Sentinel]"
  "ex_net (url (ex_job ''broken'' ''http://h/b.mp4'')) = Inr (ex_response 404 (Some ''3'') [''err''])"
  "remote_size (ex_response 404 (Some ''3'') [''err'']) = Inr 3"
  "stat_error (ex_markup ex1_world)
     (target ex_slugify ex_worker (ex_job ''broken'' ''http://h/b.mp4'')) = None"
  "\<not> same_size (ex_markup ex1_world)
       (target ex_slugify ex_worker (ex_job ''broken'' ''http://h/b.mp4'')) 3"
  "raise_for_status (ex_response 404 (Some ''3'') [''err'']) = Inl (HTTPError 404)"
  by (simp_all add: ex_worker_def is_set_def ex_markup_def ex1_world_def ex_world_def ex_net_def
      ex_job_def remote_size_def ex_response_def py_int_3 same_size_def raise_for_status_def)

lemma ex1_prints:
  "next_print ex1_world = None"
  "next_print (ex_markup ex1_world) = Some (MarkupError ''[/]'')"
  by (simp_all add: next_print_def ex_markup_def ex1_world_def ex_world_def)

text \<open>
  C1, as stated, fails: a worker that meets a 404 answer ends its loop with the flag
  cleared, and the next job and the sentinel stay in the queue.
\<close>

theorem http_error_keeps_worker_counterexample:
  "fst (run ex_slugify ex_net (ex_worker, ex1_world)) = [Raised (HTTPError 404)] \<and>
   \<not> is_running (fst (snd (run ex_slugify ex_net (ex_worker, ex1_world)))) \<and>
   queue (snd (snd (run ex_slugify ex_net (ex_worker, ex1_world)))) =
     [Job (ex_job ''intro to x'' ''http://h/a.mp4''), Sentinel]"
  by (simp add: run_status_raises(1) [where net=ex_net and slugify=ex_slugify,
        OF ex1_facts ex1_prints(1)]
      finally_block_simps console_print_simps update_total_simps add_task_simps)

text \<open>
  C1, amended. When the flag is clear at the loop entry, a job is at the head of the
  queue, the size test does not raise and does not apply, and the status of the response
  is from 400 to 599, then \<open>raise_for_status\<close> raises, and this pass is the worker's last
  one: the rest of the queue stays where it is, no file changes, nothing is written, and
  the task of the download is removed. If the print of the error in the handler of \<open>run\<close>
  does not raise, the exception is caught: the error is on the console, the handler
  clears the running flag, the overall task does not advance, and \<open>run\<close> returns. If that
  print raises, its exception leaves \<open>run\<close> and the thread is dead: nothing is printed, the
  flag is still set, and the \<open>finally\<close> block has advanced the overall task by one.
\<close>

theorem http_error_stops_worker:
  assumes "is_running w" and "is_set s = (False, s1)" and "queue s1 = Job e # q"
    and "net (url e) = Inr r" and "remote_size r = Inr n"
    and "stat_error s1 (target slugify w e) = None"
    and "\<not> same_size s1 (target slugify w e) n"
    and "400 \<le> status_code r" and "status_code r < 600"
  shows "queue (snd (snd (run slugify net (w, s)))) = q \<and>
         fs (snd (snd (run slugify net (w, s)))) = fs s \<and>
         bytes_written (snd (snd (run slugify net (w, s)))) = bytes_written s \<and>
         tasks (snd (snd (run slugify net (w, s)))) = (tasks s)(next_task s := None) \<and>
         (next_print s1 = None \<longrightarrow>
            fst (run slugify net (w, s)) = [Raised (HTTPError (status_code r))] \<and>
            \<not> is_running (fst (snd (run slugify net (w, s)))) \<and>
            crashed (fst (snd (run slugify net (w, s)))) = crashed w \<and>
            console (snd (snd (run slugify net (w, s)))) =
              console s @ [Error (HTTPError (status_code r))] \<and>
            overall (snd (snd (run slugify net (w, s)))) = overall s) \<and>
         (\<forall>print_err. next_print s1 = Some print_err \<longrightarrow>
            fst (run slugify net (w, s)) = [Escaped print_err] \<and>
            is_running (fst (snd (run slugify net (w, s)))) \<and>
            crashed (fst (snd (run slugify net (w, s)))) \<and>
            console (snd (snd (run slugify net (w, s)))) = console s \<and>
            overall (snd (snd (run slugify net (w, s)))) = Suc (overall s))"
proof -
  let ?err = "HTTPError (status_code r)"
  let ?s2 = "update_total (next_task s1) n (snd (add_task (label slugify w e) (s1\<lparr>queue := q\<rparr>)))"
  from assms(8) assms(9) have rs: "raise_for_status r = Inl ?err"
    by (simp add: raise_for_status_iff)
  note r = run_status_raises [where net=net and slugify=slugify,
      OF assms(1-7) rs]
  from is_set_frame [OF assms(2)]
  have f: "fs s1 = fs s" "console s1 = console s" "overall s1 = overall s"
    "bytes_written s1 = bytes_written s" "tasks s1 = tasks s" "next_task s1 = next_task s"
    by simp_all
  have np: "next_print ?s2 = next_print s1"
    by (rule next_print_cong) (simp add: update_total_simps add_task_simps)
  show ?thesis
  proof (cases "next_print s1")
    case None
    from r(1) [OF None] f np None assms(1) show ?thesis
      by (simp add: finally_block_simps console_print_simps update_total_simps add_task_simps)
  next
    case (Some print_err)
    from r(2) [OF Some] f np Some assms(1) show ?thesis
      by (simp add: finally_block_simps console_print_simps update_total_simps add_task_simps)
  qed
qed

theorem http_error_stops_worker_witness:
  "fst (run ex_slugify ex_net (ex_worker, ex1_world)) = [Raised (HTTPError 404)] \<and>
   \<not> is_running (fst (snd (run ex_slugify ex_net (ex_worker, ex1_world)))) \<and>
   queue (snd (snd (run ex_slugify ex_net (ex_worker, ex1_world)))) =
     [Job (ex_job ''intro to x'' ''http://h/a.mp4''), Sentinel] \<and>
   console (snd (snd (run ex_slugify ex_net (ex_worker, ex1_world)))) = [Error (HTTPError 404)] \<and>
   overall (snd (snd (run ex_slugify ex_net (ex_worker, ex1_world)))) = 0 \<and>
   fs (snd (snd (run ex_slugify ex_net (ex_worker, ex1_world)))) = Map.empty \<and>
   tasks (snd (snd (run ex_slugify ex_net (ex_worker, ex1_world)))) = Map.empty \<and>
   fst (run ex_slugify ex_net (ex_worker, ex_markup ex1_world)) = [Escaped (MarkupError ''[/]'')] \<and>
   is_running (fst (snd (run ex_slugify ex_net (ex_worker, ex_markup ex1_world)))) \<and>
   crashed (fst (snd (run ex_slugify ex_net (ex_worker, ex_markup ex1_world)))) \<and>
   queue (snd (snd (run ex_slugify ex_net (ex_worker, ex_markup ex1_world)))) =
     [Job (ex_job ''intro to x'' ''http://h/a.mp4''), Sentinel] \<and>
   console (snd (snd (run ex_slugify ex_net (ex_worker, ex_markup ex1_world)))) = [] \<and>
   overall (snd (snd (run ex_slugify ex_net (ex_worker, ex_markup ex1_world)))) = 1"
proof -
  have st: "400 \<le> status_code (ex_response 404 (Some ''3'') [''err''])"
    "status_code (ex_response 404 (Some ''3'') [''err'']) < 600"
    by (simp_all add: ex_response_def)
  have c: "status_code (ex_response 404 (Some ''3'') [''err'']) = 404"
    by (simp add: ex_response_def)
  have v: "console ex1_world = []" "overall ex1_world = 0" "fs ex1_world = Map.empty"
    "tasks ex1_world = Map.empty"
    "console (ex_markup ex1_world) = []" "overall (ex_markup ex1_world) = 0"
    by (simp_all add: ex_markup_def ex1_world_def ex_world_def)
  note a = http_error_stops_worker [where net=ex_net and slugify=ex_slugify,
      OF ex1_facts(1-7) st]
  note b = http_error_stops_worker [where net=ex_net and slugify=ex_slugify,
      OF ex1_markup_facts(1-7) st]
  from a ex1_prints(1)
  have 1: "queue (snd (snd (run ex_slugify ex_net (ex_worker, ex1_world)))) =
        [Job (ex_job ''intro to x'' ''http://h/a.mp4''), Sentinel] \<and>
      fs (snd (snd (run ex_slugify ex_net (ex_worker, ex1_world)))) = Map.empty \<and>
      tasks (snd (snd (run ex_slugify ex_net (ex_worker, ex1_world)))) = Map.empty \<and>
      fst (run ex_slugify ex_net (ex_worker, ex1_world)) = [Raised (HTTPError 404)] \<and>
      \<not> is_running (fst (snd (run ex_slugify ex_net (ex_worker, ex1_world)))) \<and>
      console (snd (snd (run ex_slugify ex_net (ex_worker, ex1_world)))) = [Error (HTTPError 404)] \<and>
      overall (snd (snd (run ex_slugify ex_net (ex_worker, ex1_world)))) = 0"
    by (simp add: c v)
  from b ex1_prints(2)
  have 2: "fst (run ex_slugify ex_net (ex_worker, ex_markup ex1_world)) =
        [Escaped (MarkupError ''[/]'')] \<and>
      is_running (fst (snd (run ex_slugify ex_net (ex_worker, ex_markup ex1_world)))) \<and>
      crashed (fst (snd (run ex_slugify ex_net (ex_worker, ex_markup ex1_world)))) \<and>
      queue (snd (snd (run ex_slugify ex_net (ex_worker, ex_markup ex1_world)))) =
        [Job (ex_job ''intro to x'' ''http://h/a.mp4''), Sentinel] \<and>
      console (snd (snd (run ex_slugify ex_net (ex_worker, ex_markup ex1_world)))) = [] \<and>
      overall (snd (snd (run ex_slugify ex_net (ex_worker, ex_markup ex1_world)))) = 1"
    by (simp add: c v)
  from 1 2 show ?thesis by simp
qed

section \<open>A pass of the loop that processes a job\<close>

lemma run_step_job_state:
  assumes "is_set s = (False, s1)" and "queue s1 = Job e # q"
  shows "fs (snd (snd (run_step slugify net (w, s)))) =
           fs (snd (snd (download_file net (url e) (label slugify w e) (target slugify w e)
                (w\<lparr>task_id := None\<rparr>, s1\<lparr>queue := q\<rparr>))))"
    and "stop_after (snd (snd (run_step slugify net (w, s)))) =
           stop_after (snd (snd (download_file net (url e) (label slugify w e) (target slugify w e)
                (w\<lparr>task_id := None\<rparr>, s1\<lparr>queue := q\<rparr>))))"
    and "queue (snd (snd (run_step slugify net (w, s)))) = q"
    and "tasks (snd (snd (run_step slugify net (w, s)))) =
           (tasks (snd (snd (download_file net (url e) (label slugify w e) (target slugify w e)
                (w\<lparr>task_id := None\<rparr>, s1\<lparr>queue := q\<rparr>)))))(next_task s := None)"
    and "bytes_written (snd (snd (run_step slugify net (w, s)))) =
           bytes_written (snd (snd (download_file net (url e) (label slugify w e)
                (target slugify w e) (w\<lparr>task_id := None\<rparr>, s1\<lparr>queue := q\<rparr>))))"
    and "output_path (fst (snd (run_step slugify net (w, s)))) = output_path w"
    and "task_id (fst (snd (run_step slugify net (w, s)))) = Some (next_task s)"
proof -
  let ?d = "download_file net (url e) (label slugify w e) (target slugify w e)
                (w\<lparr>task_id := None\<rparr>, s1\<lparr>queue := q\<rparr>)"
  from is_set_frame [OF assms(1)] have nt: "next_task s1 = next_task s" by simp
  have "fs (snd (snd (run_step slugify net (w, s)))) = fs (snd (snd ?d)) \<and>
        stop_after (snd (snd (run_step slugify net (w, s)))) = stop_after (snd (snd ?d)) \<and>
        queue (snd (snd (run_step slugify net (w, s)))) = q \<and>
        tasks (snd (snd (run_step slugify net (w, s)))) = (tasks (snd (snd ?d)))(next_task s := None) \<and>
        bytes_written (snd (snd (run_step slugify net (w, s)))) = bytes_written (snd (snd ?d)) \<and>
        output_path (fst (snd (run_step slugify net (w, s)))) = output_path w \<and>
        task_id (fst (snd (run_step slugify net (w, s)))) = Some (next_task s)"
    using assms
  proof (cases rule: run_step_job_cases [where net=net and slugify=slugify and w=w])
    case (returned w2 s2)
    from download_file_worker_res [OF returned(1)] nt
    have w2: "task_id w2 = Some (next_task s)" "output_path w2 = output_path w" by simp_all
    from download_file_queue_res [OF returned(1)] have q2: "queue s2 = q" by simp
    from w2 q2 show ?thesis
      by (simp add: returned finally_block_simps)
  next
    case (raised err w2 s2)
    from download_file_worker_res [OF raised(1)] nt
    have w2: "task_id w2 = Some (next_task s)" "output_path w2 = output_path w" by simp_all
    from download_file_queue_res [OF raised(1)] have q2: "queue s2 = q" by simp
    from w2 q2 show ?thesis
      by (simp add: raised finally_block_simps console_print_simps)
  next
    case (escaped err print_err w2 s2)
    from download_file_worker_res [OF escaped(1)] nt
    have w2: "task_id w2 = Some (next_task s)" "output_path w2 = output_path w" by simp_all
    from download_file_queue_res [OF escaped(1)] have q2: "queue s2 = q" by simp
    from w2 q2 show ?thesis
      by (simp add: escaped finally_block_simps console_print_simps)
  qed
  then show "fs (snd (snd (run_step slugify net (w, s)))) = fs (snd (snd ?d))"
    and "stop_after (snd (snd (run_step slugify net (w, s)))) = stop_after (snd (snd ?d))"
    and "queue (snd (snd (run_step slugify net (w, s)))) = q"
    and "tasks (snd (snd (run_step slugify net (w, s)))) = (tasks (snd (snd ?d)))(next_task s := None)"
    and "bytes_written (snd (snd (run_step slugify net (w, s)))) = bytes_written (snd (snd ?d))"
    and "output_path (fst (snd (run_step slugify net (w, s)))) = output_path w"
    and "task_id (fst (snd (run_step slugify net (w, s)))) = Some (next_task s)"
    by simp_all
qed

text \<open>
  The outcome of a pass that takes a job, the flags of the worker and the overall task
  after it, by what \<open>download_file\<close> did and what the print in the handler does.
\<close>

lemma run_step_job_outcome:
  assumes "is_set s = (False, s1)" and "queue s1 = Job e # q"
  shows "fst (run_step slugify net (w, s)) =
           (case fst (download_file net (url e) (label slugify w e) (target slugify w e)
                        (w\<lparr>task_id := None\<rparr>, s1\<lparr>queue := q\<rparr>)) of
              Inr x \<Rightarrow> Returned
            | Inl err \<Rightarrow>
                (case next_print (snd (snd (download_file net (url e) (label slugify w e)
                        (target slugify w e) (w\<lparr>task_id := None\<rparr>, s1\<lparr>queue := q\<rparr>)))) of
                   None \<Rightarrow> Raised err
                 | Some print_err \<Rightarrow> Escaped print_err))"
    and "is_running (fst (snd (run_step slugify net (w, s)))) =
           (is_running w \<and>
            (case fst (run_step slugify net (w, s)) of Raised err \<Rightarrow> False | _ \<Rightarrow> True))"
    and "crashed (fst (snd (run_step slugify net (w, s)))) =
           (crashed w \<or>
            (case fst (run_step slugify net (w, s)) of Escaped err \<Rightarrow> True | _ \<Rightarrow> False))"
    and "overall (snd (snd (run_step slugify net (w, s)))) =
           (if is_running (fst (snd (run_step slugify net (w, s)))) then Suc (overall s)
            else overall s)"
    and "console (snd (snd (run_step slugify net (w, s)))) =
           (case fst (run_step slugify net (w, s)) of
              Raised err \<Rightarrow>
                console (snd (snd (download_file net (url e) (label slugify w e)
                        (target slugify w e) (w\<lparr>task_id := None\<rparr>, s1\<lparr>queue := q\<rparr>)))) @ [Error err]
            | _ \<Rightarrow>
                console (snd (snd (download_file net (url e) (label slugify w e)
                        (target slugify w e) (w\<lparr>task_id := None\<rparr>, s1\<lparr>queue := q\<rparr>)))))"
proof -
  let ?d = "download_file net (url e) (label slugify w e) (target slugify w e)
                (w\<lparr>task_id := None\<rparr>, s1\<lparr>queue := q\<rparr>)"
  let ?r = "run_step slugify net (w, s)"
  from is_set_frame [OF assms(1)] have o1: "overall s1 = overall s" by simp
  have o: "overall (snd (snd ?d)) = overall s"
    using download_file_overall [of net "url e" "label slugify w e" "target slugify w e"
      "w\<lparr>task_id := None\<rparr>" "s1\<lparr>queue := q\<rparr>"] o1 by simp
  have "fst ?r =
           (case fst ?d of
              Inr x \<Rightarrow> Returned
            | Inl err \<Rightarrow>
                (case next_print (snd (snd ?d)) of
                   None \<Rightarrow> Raised err
                 | Some print_err \<Rightarrow> Escaped print_err)) \<and>
        is_running (fst (snd ?r)) =
           (is_running w \<and> (case fst ?r of Raised err \<Rightarrow> False | _ \<Rightarrow> True)) \<and>
        crashed (fst (snd ?r)) =
           (crashed w \<or> (case fst ?r of Escaped err \<Rightarrow> True | _ \<Rightarrow> False)) \<and>
        overall (snd (snd ?r)) =
           (if is_running (fst (snd ?r)) then Suc (overall s) else overall s) \<and>
        console (snd (snd ?r)) =
           (case fst ?r of
              Raised err \<Rightarrow> console (snd (snd ?d)) @ [Error err]
            | _ \<Rightarrow> console (snd (snd ?d)))"
    using assms
  proof (cases rule: run_step_job_cases [where net=net and slugify=slugify and w=w])
    case (returned w2 s2)
    from download_file_worker_res [OF returned(1)]
    have w2: "is_running w2 = is_running w" "crashed w2 = crashed w" by simp_all
    from o returned(1) have "overall s2 = overall s" by simp
    with w2 show ?thesis by (simp add: returned finally_block_simps)
  next
    case (raised err w2 s2)
    from download_file_worker_res [OF raised(1)]
    have w2: "is_running w2 = is_running w" "crashed w2 = crashed w" by simp_all
    from o raised(1) have "overall s2 = overall s" by simp
    with w2 raised(2) show ?thesis
      by (simp add: raised(1) raised(3) finally_block_simps console_print_simps)
  next
    case (escaped err print_err w2 s2)
    from download_file_worker_res [OF escaped(1)]
    have w2: "is_running w2 = is_running w" "crashed w2 = crashed w" by simp_all
    from o escaped(1) have "overall s2 = overall s" by simp
    with w2 escaped(2) show ?thesis
      by (simp add: escaped(1) escaped(3) finally_block_simps console_print_simps)
  qed
  then show "fst ?r =
           (case fst ?d of
              Inr x \<Rightarrow> Returned
            | Inl err \<Rightarrow>
                (case next_print (snd (snd ?d)) of
                   None \<Rightarrow> Raised err
                 | Some print_err \<Rightarrow> Escaped print_err))"
    and "is_running (fst (snd ?r)) =
           (is_running w \<and> (case fst ?r of Raised err \<Rightarrow> False | _ \<Rightarrow> True))"
    and "crashed (fst (snd ?r)) =
           (crashed w \<or> (case fst ?r of Escaped err \<Rightarrow> True | _ \<Rightarrow> False))"
    and "overall (snd (snd ?r)) =
           (if is_running (fst (snd ?r)) then Suc (overall s) else overall s)"
    and "console (snd (snd ?r)) =
           (case fst ?r of
              Raised err \<Rightarrow> console (snd (snd ?d)) @ [Error err]
            | _ \<Rightarrow> console (snd (snd ?d)))"
    by simp_all
qed

subsection \<open>A download that streams the body\<close>

lemma run_step_streams:
  assumes "is_running w" and "is_set s = (False, s1)" and "queue s1 = Job e # q"
    and "net (url e) = Inr r" and "remote_size r = Inr n"
    and "stat_error s1 (target slugify w e) = None"
    and "\<not> same_size s1 (target slugify w e) n" and "raise_for_status r = Inr ()"
    and "open_error s1 (target slugify w e) = None"
    and "write_error s1 (target slugify w e) = None"
    and "stop_after s1 = Some k" and "k < length (body r)"
  shows "fst (run_step slugify net (w, s)) = Returned"
    and "overall (snd (snd (run_step slugify net (w, s)))) = Suc (overall s)"
    and "fs (snd (snd (run_step slugify net (w, s)))) =
           (fs s)(target slugify w e \<mapsto> concat (take k (body r)))"
    and "stop_after (snd (snd (run_step slugify net (w, s)))) = Some 0"
    and "is_running (fst (snd (run_step slugify net (w, s))))"
    and "crashed (fst (snd (run_step slugify net (w, s)))) = crashed w"
    and "console (snd (snd (run_step slugify net (w, s)))) = console s"
    and "bytes_written (snd (snd (run_step slugify net (w, s)))) =
           bytes_written s + length (concat (take k (body r)))"
    and "queue (snd (snd (run_step slugify net (w, s)))) = q"
proof -
  let ?s0 = "s1\<lparr>queue := q\<rparr>"
  let ?d = "download_file net (url e) (label slugify w e) (target slugify w e)
                (w\<lparr>task_id := None\<rparr>, ?s0)"
  have st: "stat_error ?s0 (target slugify w e) = None" using assms(6) by simp
  have ns: "\<not> same_size ?s0 (target slugify w e) n" using assms(7) by (simp add: same_size_queue)
  have op: "open_error ?s0 (target slugify w e) = None" using assms(9) by simp
  have we: "write_error ?s0 (target slugify w e) = None" using assms(10) by simp
  note sts = download_file_streams_state [where net=net and u="url e" and s="?s0"
      and w="w\<lparr>task_id := None\<rparr>" and name="label slugify w e",
      OF assms(4) assms(5) st ns assms(8) op we]
  from sts(1) assms(11) assms(12) have res: "fst ?d = Inr ()" by simp
  note o = run_step_job_outcome [where net=net and slugify=slugify and w=w, OF assms(2) assms(3)]
  note js = run_step_job_state [where net=net and slugify=slugify and w=w, OF assms(2) assms(3)]
  from is_set_frame [OF assms(2)]
  have f: "fs s1 = fs s" "console s1 = console s" "bytes_written s1 = bytes_written s" by simp_all
  from assms(12) have wr: "written (Some k) (body r) = k" by (simp add: written_def)
  from o(1) res show 1: "fst (run_step slugify net (w, s)) = Returned" by simp
  from o(2) 1 assms(1) show 2: "is_running (fst (snd (run_step slugify net (w, s))))" by simp
  from o(3) 1 show "crashed (fst (snd (run_step slugify net (w, s)))) = crashed w" by simp
  from o(4) 2 show "overall (snd (snd (run_step slugify net (w, s)))) = Suc (overall s)" by simp
  from sts(2) assms(11) f wr
  show "fs (snd (snd (run_step slugify net (w, s)))) =
           (fs s)(target slugify w e \<mapsto> concat (take k (body r)))"
    by (simp add: js(1))
  from sts(4) assms(11) wr
  show "stop_after (snd (snd (run_step slugify net (w, s)))) = Some 0"
    by (simp add: js(2))
  from o(5) 1 sts(3) f show "console (snd (snd (run_step slugify net (w, s)))) = console s"
    by simp
  from sts(6) assms(11) f wr
  show "bytes_written (snd (snd (run_step slugify net (w, s)))) =
           bytes_written s + length (concat (take k (body r)))"
    by (simp add: js(5))
  show "queue (snd (snd (run_step slugify net (w, s)))) = q" by (rule js(3))
qed

text \<open>
  After a download that the stop event has cut short, the worker enters its loop once
  more, finds the event set, and stops.
\<close>

lemma run_cancelled_in_download:
  assumes "is_running w" and "\<not> crashed w" and "is_set s = (False, s1)"
    and "queue s1 = Job e # q"
    and "net (url e) = Inr r" and "remote_size r = Inr n"
    and "stat_error s1 (target slugify w e) = None"
    and "\<not> same_size s1 (target slugify w e) n" and "raise_for_status r = Inr ()"
    and "open_error s1 (target slugify w e) = None"
    and "write_error s1 (target slugify w e) = None"
    and "stop_after s1 = Some k" and "k < length (body r)"
  shows "fst (run slugify net (w, s)) = [Returned, Cancelled] \<and>
         \<not> is_running (fst (snd (run slugify net (w, s)))) \<and>
         \<not> crashed (fst (snd (run slugify net (w, s)))) \<and>
         fs (snd (snd (run slugify net (w, s)))) =
           (fs s)(target slugify w e \<mapsto> concat (take k (body r))) \<and>
         bytes_written (snd (snd (run slugify net (w, s)))) =
           bytes_written s + length (concat (take k (body r))) \<and>
         console (snd (snd (run slugify net (w, s)))) = console s \<and>
         queue (snd (snd (run slugify net (w, s)))) = q"
proof -
  obtain oc w' s' where st: "run_step slugify net (w, s) = (oc, w', s')" by (rule prod_cases3)
  note rs = run_step_streams [where net=net and slugify=slugify, OF assms(1) assms(3-13)]
  from rs st have oc: "oc = Returned" and w': "is_running w'" "\<not> crashed w'"
    and s': "stop_after s' = Some 0" "fs s' = (fs s)(target slugify w e \<mapsto> concat (take k (body r)))"
      "bytes_written s' = bytes_written s + length (concat (take k (body r)))"
      "console s' = console s" "queue s' = q"
    using assms(2) by simp_all
  from s'(1) have i: "is_set s' = (True, s')" by (simp add: is_set_def)
  have c: "run slugify net (w', s') = ([Cancelled], w'\<lparr>task_id := None, is_running := False\<rparr>, s')"
    by (rule run_last [OF w'(1)]) (simp_all add: run_step_cancelled [OF i])
  have "run slugify net (w, s) =
      (oc # fst (run slugify net (w', s')), snd (run slugify net (w', s')))"
    by (rule run_next [OF assms(1) st]) (simp_all add: oc w')
  with c oc w' s' show ?thesis by simp
qed

lemma ex_long_facts:
  "ex_net ''http://h/e.mp4'' = Inr ex_long"
  "remote_size ex_long = Inr 9"
  "raise_for_status ex_long = Inr ()"
  "body ex_long = [''abc'', ''def'', ''ghi'']"
  by (simp_all add: ex_net_def ex_long_def ex_response_def remote_size_def ex_py_int_9
      raise_for_status_def)

section \<open>Claims C6, C2 and C3: cancellation and the overall task\<close>

text \<open>
  C6. In a download that streams the body (the request is answered, the size test neither
  raises nor applies, the status is no error status, the file can be opened and the disk
  takes what is written to it), the stop event is polled once for every chunk the
  iterator hands over, before the chunk is written. When the event is found set at the
  poll for chunk \<open>k + 1\<close> (it was clear at the \<open>k\<close> polls before), \<open>download_file\<close>
  returns without raising, whether or not the transfer would have broken later; the file
  holds the first \<open>k\<close> chunks and nothing else, and stays so (nothing is removed or
  truncated); the bytes written are those of the first \<open>k\<close> chunks, and the task of the
  download has advanced by as much; nothing is printed. The chunk fetched when the event
  was found set is the only one dropped after the event was set. And the worker stops:
  in \<open>run\<close> the pass ends by a normal return, the next entry of the loop finds the event
  set, clears the running flag and returns; the worker has taken no further item and
  written nothing more.
\<close>

theorem cancellation_between_chunks:
  "(net u = Inr r \<and> remote_size r = Inr n \<and> stat_error s p = None \<and> \<not> same_size s p n \<and>
    raise_for_status r = Inr () \<and> open_error s p = None \<and> write_error s p = None \<and>
    stop_after s = Some k \<and> k < length (body r) \<longrightarrow>
      fst (download_file net u name p (w, s)) = Inr () \<and>
      fs (snd (snd (download_file net u name p (w, s)))) =
        (fs s)(p \<mapsto> concat (take k (body r))) \<and>
      bytes_written (snd (snd (download_file net u name p (w, s)))) =
        bytes_written s + length (concat (take k (body r))) \<and>
      console (snd (snd (download_file net u name p (w, s)))) = console s \<and>
      stop_after (snd (snd (download_file net u name p (w, s)))) = Some 0 \<and>
      tasks (snd (snd (download_file net u name p (w, s)))) (next_task s) =
        Some \<lparr>filename = name, total = n,
              completed = int (length (concat (take k (body r)))), started = True\<rparr>) \<and>
   (is_running w \<and> \<not> crashed w \<and> is_set s = (False, s1) \<and> queue s1 = Job e # q \<and>
    net (url e) = Inr r \<and> remote_size r = Inr n \<and>
    stat_error s1 (target slugify w e) = None \<and> \<not> same_size s1 (target slugify w e) n \<and>
    raise_for_status r = Inr () \<and> open_error s1 (target slugify w e) = None \<and>
    write_error s1 (target slugify w e) = None \<and>
    stop_after s1 = Some k \<and> k < length (body r) \<longrightarrow>
      fst (run slugify net (w, s)) = [Returned, Cancelled] \<and>
      \<not> is_running (fst (snd (run slugify net (w, s)))) \<and>
      \<not> crashed (fst (snd (run slugify net (w, s)))) \<and>
      fs (snd (snd (run slugify net (w, s)))) =
        (fs s)(target slugify w e \<mapsto> concat (take k (body r))) \<and>
      bytes_written (snd (snd (run slugify net (w, s)))) =
        bytes_written s + length (concat (take k (body r))) \<and>
      console (snd (snd (run slugify net (w, s)))) = console s \<and>
      queue (snd (snd (run slugify net (w, s)))) = q)"
proof -
  have 1: "fst (download_file net u name p (w, s)) = Inr () \<and>
      fs (snd (snd (download_file net u name p (w, s)))) =
        (fs s)(p \<mapsto> concat (take k (body r))) \<and>
      bytes_written (snd (snd (download_file net u name p (w, s)))) =
        bytes_written s + length (concat (take k (body r))) \<and>
      console (snd (snd (download_file net u name p (w, s)))) = console s \<and>
      stop_after (snd (snd (download_file net u name p (w, s)))) = Some 0 \<and>
      tasks (snd (snd (download_file net u name p (w, s)))) (next_task s) =
        Some \<lparr>filename = name, total = n,
              completed = int (length (concat (take k (body r)))), started = True\<rparr>"
    if h: "net u = Inr r" "remote_size r = Inr n" "stat_error s p = None" "\<not> same_size s p n"
      "raise_for_status r = Inr ()" "open_error s p = None" "write_error s p = None"
      "stop_after s = Some k" "k < length (body r)"
  proof -
    note st = download_file_streams_state [where net=net and u=u and name=name and w=w,
        OF h(1-7)]
    from h(9) have wr: "written (Some k) (body r) = k" by (simp add: written_def)
    from st(1) h(8) h(9)
    have a: "fst (download_file net u name p (w, s)) = Inr ()" by simp
    from st(2) h(8) wr
    have b: "fs (snd (snd (download_file net u name p (w, s)))) =
        (fs s)(p \<mapsto> concat (take k (body r)))" by simp
    from st(4) h(8) wr
    have c: "stop_after (snd (snd (download_file net u name p (w, s)))) = Some 0" by simp
    from st(5) h(8) wr
    have d: "tasks (snd (snd (download_file net u name p (w, s)))) (next_task s) =
        Some \<lparr>filename = name, total = n,
              completed = int (length (concat (take k (body r)))), started = True\<rparr>" by simp
    from st(6) h(8) wr
    have e: "bytes_written (snd (snd (download_file net u name p (w, s)))) =
        bytes_written s + length (concat (take k (body r)))" by simp
    from a b c d e st(3) show ?thesis by simp
  qed
  have 2: "fst (run slugify net (w, s)) = [Returned, Cancelled] \<and>
      \<not> is_running (fst (snd (run slugify net (w, s)))) \<and>
      \<not> crashed (fst (snd (run slugify net (w, s)))) \<and>
      fs (snd (snd (run slugify net (w, s)))) =
        (fs s)(target slugify w e \<mapsto> concat (take k (body r))) \<and>
      bytes_written (snd (snd (run slugify net (w, s)))) =
        bytes_written s + length (concat (take k (body r))) \<and>
      console (snd (snd (run slugify net (w, s)))) = console s \<and>
      queue (snd (snd (run slugify net (w, s)))) = q"
    if h: "is_running w" "\<not> crashed w" "is_set s = (False, s1)" "queue s1 = Job e # q"
      "net (url e) = Inr r" "remote_size r = Inr n"
      "stat_error s1 (target slugify w e) = None" "\<not> same_size s1 (target slugify w e) n"
      "raise_for_status r = Inr ()" "open_error s1 (target slugify w e) = None"
      "write_error s1 (target slugify w e) = None"
      "stop_after s1 = Some k" "k < length (body r)"
    by (rule run_cancelled_in_download [where net=net and slugify=slugify, OF h])
  from 1 2 show ?thesis by blast
qed

lemma ex2_facts:
  "is_running ex_worker"
  "is_set ex2_world = (False, ex2_world\<lparr>stop_after := Some 1\<rparr>)"
  "queue (ex2_world\<lparr>stop_after := Some 1\<rparr>) =
     Job (ex_job ''long talk'' ''http://h/e.mp4'') # [Sentinel]"
  "ex_net (url (ex_job ''long talk'' ''http://h/e.mp4'')) = Inr ex_long"
  "remote_size ex_long = Inr 9"
  "stat_error (ex2_world\<lparr>stop_after := Some 1\<rparr>)
      (target ex_slugify ex_worker (ex_job ''long talk'' ''http://h/e.mp4'')) = None"
  "\<not> same_size (ex2_world\<lparr>stop_after := Some 1\<rparr>)
      (target ex_slugify ex_worker (ex_job ''long talk'' ''http://h/e.mp4'')) 9"
  "raise_for_status ex_long = Inr ()"
  "open_error (ex2_world\<lparr>stop_after := Some 1\<rparr>)
      (target ex_slugify ex_worker (ex_job ''long talk'' ''http://h/e.mp4'')) = None"
  "write_error (ex2_world\<lparr>stop_after := Some 1\<rparr>)
      (target ex_slugify ex_worker (ex_job ''long talk'' ''http://h/e.mp4'')) = None"
  "stop_after (ex2_world\<lparr>stop_after := Some 1\<rparr>) = Some 1"
  "1 < length (body ex_long)"
  by (simp_all add: ex_worker_def is_set_def ex2_world_def ex_world_def ex_job_def
      ex_long_facts same_size_def)

lemma ex2_target:
  "target ex_slugify ex_worker (ex_job ''long talk'' ''http://h/e.mp4'') =
     [''home'', ''output'', ''long-talk.mp4'']"
  by (simp add: target_def ex_slugify_def ex_worker_def ex_job_def)

theorem cancellation_between_chunks_witness:
  "fst (download_file ex_net ''http://h/e.mp4'' ''talk'' [''home'', ''output'', ''talk.mp4'']
          (ex_worker, ex_world Map.empty [] (Some 2))) = Inr () \<and>
   fs (snd (snd (download_file ex_net ''http://h/e.mp4'' ''talk'' [''home'', ''output'', ''talk.mp4'']
          (ex_worker, ex_world Map.empty [] (Some 2))))) =
     [[''home'', ''output'', ''talk.mp4''] \<mapsto> ''abcdef''] \<and>
   bytes_written (snd (snd (download_file ex_net ''http://h/e.mp4'' ''talk''
          [''home'', ''output'', ''talk.mp4''] (ex_worker, ex_world Map.empty [] (Some 2))))) = 6 \<and>
   console (snd (snd (download_file ex_net ''http://h/e.mp4'' ''talk'' [''home'', ''output'', ''talk.mp4'']
          (ex_worker, ex_world Map.empty [] (Some 2))))) = [] \<and>
   stop_after (snd (snd (download_file ex_net ''http://h/e.mp4'' ''talk'' [''home'', ''output'', ''talk.mp4'']
          (ex_worker, ex_world Map.empty [] (Some 2))))) = Some 0 \<and>
   tasks (snd (snd (download_file ex_net ''http://h/e.mp4'' ''talk'' [''home'', ''output'', ''talk.mp4'']
          (ex_worker, ex_world Map.empty [] (Some 2))))) 0 =
     Some \<lparr>filename = ''talk'', total = 9, completed = 6, started = True\<rparr> \<and>
   fst (run ex_slugify ex_net (ex_worker, ex2_world)) = [Returned, Cancelled] \<and>
   \<not> is_running (fst (snd (run ex_slugify ex_net (ex_worker, ex2_world)))) \<and>
   fs (snd (snd (run ex_slugify ex_net (ex_worker, ex2_world)))) =
     [[''home'', ''output'', ''long-talk.mp4''] \<mapsto> ''abc''] \<and>
   bytes_written (snd (snd (run ex_slugify ex_net (ex_worker, ex2_world)))) = 3 \<and>
   queue (snd (snd (run ex_slugify ex_net (ex_worker, ex2_world)))) = [Sentinel]"
proof -
  let ?s = "ex_world Map.empty [] (Some 2)"
  let ?p = "[''home'', ''output'', ''talk.mp4'']"
  have 3: "stat_error ?s ?p = None" "\<not> same_size ?s ?p 9" "open_error ?s ?p = None"
    "write_error ?s ?p = None" "stop_after ?s = Some 2"
    by (simp_all add: same_size_def ex_world_def)
  have 6: "2 < length (body ex_long)" by (simp add: ex_long_facts)
  have nc: "\<not> crashed ex_worker" by (simp add: ex_worker_def)
  have v: "fs ?s = Map.empty" "bytes_written ?s = 0" "console ?s = []" "next_task ?s = 0"
    "fs ex2_world = Map.empty" "bytes_written ex2_world = 0"
    by (simp_all add: ex_world_def ex2_world_def)
  note a = cancellation_between_chunks [where net=ex_net and u="''http://h/e.mp4''"
      and r=ex_long and n=9 and s="?s" and p="?p" and k=2 and name="''talk''" and w=ex_worker]
  note b = cancellation_between_chunks [where net=ex_net and slugify=ex_slugify
      and w=ex_worker and s=ex2_world and ?s1.0="ex2_world\<lparr>stop_after := Some 1\<rparr>"
      and e="ex_job ''long talk'' ''http://h/e.mp4''" and q="[Sentinel]"
      and r=ex_long and n=9 and k=1]
  from a ex_long_facts(1-3) 3 6
  have 1: "fst (download_file ex_net ''http://h/e.mp4'' ''talk'' ?p (ex_worker, ?s)) = Inr () \<and>
      fs (snd (snd (download_file ex_net ''http://h/e.mp4'' ''talk'' ?p (ex_worker, ?s)))) =
        (fs ?s)(?p \<mapsto> concat (take 2 (body ex_long))) \<and>
      bytes_written (snd (snd (download_file ex_net ''http://h/e.mp4'' ''talk'' ?p (ex_worker, ?s)))) =
        bytes_written ?s + length (concat (take 2 (body ex_long))) \<and>
      console (snd (snd (download_file ex_net ''http://h/e.mp4'' ''talk'' ?p (ex_worker, ?s)))) =
        console ?s \<and>
      stop_after (snd (snd (download_file ex_net ''http://h/e.mp4'' ''talk'' ?p (ex_worker, ?s)))) =
        Some 0 \<and>
      tasks (snd (snd (download_file ex_net ''http://h/e.mp4'' ''talk'' ?p (ex_worker, ?s))))
          (next_task ?s) =
        Some \<lparr>filename = ''talk'', total = 9,
              completed = int (length (concat (take 2 (body ex_long)))), started = True\<rparr>"
    by blast
  from b ex2_facts nc
  have 2: "fst (run ex_slugify ex_net (ex_worker, ex2_world)) = [Returned, Cancelled] \<and>
      \<not> is_running (fst (snd (run ex_slugify ex_net (ex_worker, ex2_world)))) \<and>
      fs (snd (snd (run ex_slugify ex_net (ex_worker, ex2_world)))) =
        (fs ex2_world)(target ex_slugify ex_worker (ex_job ''long talk'' ''http://h/e.mp4'')
           \<mapsto> concat (take 1 (body ex_long))) \<and>
      bytes_written (snd (snd (run ex_slugify ex_net (ex_worker, ex2_world)))) =
        bytes_written ex2_world + length (concat (take 1 (body ex_long))) \<and>
      queue (snd (snd (run ex_slugify ex_net (ex_worker, ex2_world)))) = [Sentinel]"
    by blast
  from 1 2 show ?thesis by (simp add: v ex2_target ex_long_facts)
qed

text \<open>
  C2, as stated, fails: the stop event is set while the worker streams a body of three
  chunks, the download stops after the first chunk, and the overall task has advanced
  all the same.
\<close>

theorem cancelled_download_counterexample:
  "concat (body ex_long) = ''abcdefghi'' \<and>
   fst (run_step ex_slugify ex_net (ex_worker, ex2_world)) = Returned \<and>
   fs (snd (snd (run_step ex_slugify ex_net (ex_worker, ex2_world))))
      [''home'', ''output'', ''long-talk.mp4''] = Some ''abc'' \<and>
   stop_after (snd (snd (run_step ex_slugify ex_net (ex_worker, ex2_world)))) = Some 0 \<and>
   overall (snd (snd (run_step ex_slugify ex_net (ex_worker, ex2_world)))) =
     Suc (overall ex2_world)"
  using run_step_streams(1-4) [where net=ex_net and slugify=ex_slugify, OF ex2_facts]
  by (simp add: ex2_target ex_long_facts)

text \<open>
  C2, amended. For every job a running worker takes from the queue with the flag clear
  at the loop entry, the overall task advances by one if \<open>download_file\<close> returns without
  raising. If \<open>download_file\<close> raises and the print of the error in the handler does not
  raise, the overall task stays as it is; if that print raises, the running flag is still
  set in the \<open>finally\<close> block and the overall task advances by one. A return without
  raising is a completed transfer, a skip on equal sizes, or the early return of a
  transfer in which the stop event was found set: in that last case the overall task
  advances as well, with only the chunks written before in the file.
\<close>

theorem overall_advances_unless_error_caught:
  assumes "is_running w" and "is_set s = (False, s1)" and "queue s1 = Job e # q"
  shows "overall (snd (snd (run_step slugify net (w, s)))) =
           (if fst (download_file net (url e) (label slugify w e) (target slugify w e)
                      (w\<lparr>task_id := None\<rparr>, s1\<lparr>queue := q\<rparr>)) = Inr ()
            then Suc (overall s)
            else if next_print (snd (snd (download_file net (url e) (label slugify w e)
                      (target slugify w e) (w\<lparr>task_id := None\<rparr>, s1\<lparr>queue := q\<rparr>)))) = None
            then overall s
            else Suc (overall s)) \<and>
         (net (url e) = Inr r \<and> remote_size r = Inr n \<and>
          stat_error s1 (target slugify w e) = None \<and>
          \<not> same_size s1 (target slugify w e) n \<and> raise_for_status r = Inr () \<and>
          open_error s1 (target slugify w e) = None \<and>
          write_error s1 (target slugify w e) = None \<and>
          stop_after s1 = Some k \<and> k < length (body r) \<longrightarrow>
            overall (snd (snd (run_step slugify net (w, s)))) = Suc (overall s) \<and>
            fs (snd (snd (run_step slugify net (w, s)))) =
              (fs s)(target slugify w e \<mapsto> concat (take k (body r))))"
proof -
  let ?d = "download_file net (url e) (label slugify w e) (target slugify w e)
              (w\<lparr>task_id := None\<rparr>, s1\<lparr>queue := q\<rparr>)"
  note o = run_step_job_outcome [where net=net and slugify=slugify and w=w, OF assms(2) assms(3)]
  have 1: "overall (snd (snd (run_step slugify net (w, s)))) =
           (if fst ?d = Inr () then Suc (overall s)
            else if next_print (snd (snd ?d)) = None then overall s
            else Suc (overall s))"
  proof (cases "fst ?d")
    case (Inr x)
    with o(1) have "fst (run_step slugify net (w, s)) = Returned" by simp
    with o(2) o(4) assms(1) Inr show ?thesis by simp
  next
    case (Inl err)
    show ?thesis
    proof (cases "next_print (snd (snd ?d))")
      case None
      with o(1) Inl have "fst (run_step slugify net (w, s)) = Raised err" by simp
      with o(2) o(4) Inl None show ?thesis by simp
    next
      case (Some print_err)
      with o(1) Inl have "fst (run_step slugify net (w, s)) = Escaped print_err" by simp
      with o(2) o(4) assms(1) Inl Some show ?thesis by simp
    qed
  qed
  have 2: "overall (snd (snd (run_step slugify net (w, s)))) = Suc (overall s) \<and>
            fs (snd (snd (run_step slugify net (w, s)))) =
              (fs s)(target slugify w e \<mapsto> concat (take k (body r)))"
    if h: "net (url e) = Inr r" "remote_size r = Inr n"
      "stat_error s1 (target slugify w e) = None"
      "\<not> same_size s1 (target slugify w e) n" "raise_for_status r = Inr ()"
      "open_error s1 (target slugify w e) = None"
      "write_error s1 (target slugify w e) = None"
      "stop_after s1 = Some k" "k < length (body r)"
    using run_step_streams(2,3) [where net=net and slugify=slugify, OF assms h] by simp
  from 1 2 show ?thesis by blast
qed

lemma ex3_facts:
  "is_set ex3_world = (False, ex3_world)"
  "queue ex3_world = Job (ex_job ''outage'' ''http://h/d.mp4'') # [Sentinel]"
  "ex_net (url (ex_job ''outage'' ''http://h/d.mp4'')) = Inr (ex_response 500 None [])"
  "remote_size (ex_response 500 None []) = Inr 0"
  "stat_error ex3_world (target ex_slugify ex_worker (ex_job ''outage'' ''http://h/d.mp4'')) = None"
  "\<not> same_size ex3_world (target ex_slugify ex_worker (ex_job ''outage'' ''http://h/d.mp4'')) 0"
  "raise_for_status (ex_response 500 None []) = Inl (HTTPError 500)"
  by (simp_all add: is_set_def ex3_world_def ex_world_def ex_net_def ex_job_def
      remote_size_def ex_response_def same_size_def raise_for_status_def)

lemma ex3_markup_facts:
  "is_set (ex_markup ex3_world) = (False, ex_markup ex3_world)"
  "queue (ex_markup ex3_world) = Job (ex_job ''outage'' ''http://h/d.mp4'') # [Sentinel]"
  "ex_net (url (ex_job ''outage'' ''http://h/d.mp4'')) = Inr (ex_response 500 None [])"
  "remote_size (ex_response 500 None []) = Inr 0"
  "stat_error (ex_markup ex3_world)
     (target ex_slugify ex_worker (ex_job ''outage'' ''http://h/d.mp4'')) = None"
  "\<not> same_size (ex_markup ex3_world)
       (target ex_slugify ex_worker (ex_job ''outage'' ''http://h/d.mp4'')) 0"
  "raise_for_status (ex_response 500 None []) = Inl (HTTPError 500)"
  by (simp_all add: is_set_def ex_markup_def ex3_world_def ex_world_def ex_net_def ex_job_def
      remote_size_def ex_response_def same_size_def raise_for_status_def)

lemma ex3_prints:
  "next_print ex3_world = None"
  "next_print (ex_markup ex3_world) = Some (MarkupError ''[/]'')"
  by (simp_all add: next_print_def ex_markup_def ex3_world_def ex_world_def)

lemma ex3_download:
  "download_file ex_net (url (ex_job ''outage'' ''http://h/d.mp4''))
     (label ex_slugify ex_worker (ex_job ''outage'' ''http://h/d.mp4''))
     (target ex_slugify ex_worker (ex_job ''outage'' ''http://h/d.mp4''))
     (ex_worker\<lparr>task_id := None\<rparr>, ex3_world\<lparr>queue := [Sentinel]\<rparr>) =
   (Inl (HTTPError 500), ex_worker\<lparr>task_id := Some (next_task ex3_world)\<rparr>,
    update_total (next_task ex3_world) 0
      (snd (add_task (label ex_slugify ex_worker (ex_job ''outage'' ''http://h/d.mp4''))
         (ex3_world\<lparr>queue := [Sentinel]\<rparr>))))"
  by (rule download_file_job_status_raises [where net=ex_net and slugify=ex_slugify,
        OF ex3_facts(3-7)])

lemma ex3_markup_download:
  "download_file ex_net (url (ex_job ''outage'' ''http://h/d.mp4''))
     (label ex_slugify ex_worker (ex_job ''outage'' ''http://h/d.mp4''))
     (target ex_slugify ex_worker (ex_job ''outage'' ''http://h/d.mp4''))
     (ex_worker\<lparr>task_id := None\<rparr>, (ex_markup ex3_world)\<lparr>queue := [Sentinel]\<rparr>) =
   (Inl (HTTPError 500), ex_worker\<lparr>task_id := Some (next_task (ex_markup ex3_world))\<rparr>,
    update_total (next_task (ex_markup ex3_world)) 0
      (snd (add_task (label ex_slugify ex_worker (ex_job ''outage'' ''http://h/d.mp4''))
         ((ex_markup ex3_world)\<lparr>queue := [Sentinel]\<rparr>))))"
  by (rule download_file_job_status_raises [where net=ex_net and slugify=ex_slugify,
        OF ex3_markup_facts(3-7)])

theorem overall_advances_unless_error_caught_witness:
  "overall (snd (snd (run_step ex_slugify ex_net (ex_worker, ex2_world)))) = 1 \<and>
   fs (snd (snd (run_step ex_slugify ex_net (ex_worker, ex2_world)))) =
     [[''home'', ''output'', ''long-talk.mp4''] \<mapsto> ''abc''] \<and>
   overall (snd (snd (run_step ex_slugify ex_net (ex_worker, ex3_world)))) = 0 \<and>
   overall (snd (snd (run_step ex_slugify ex_net (ex_worker, ex_markup ex3_world)))) = 1"
proof -
  have w0: "overall ex2_world = 0" "fs ex2_world = Map.empty" "overall ex3_world = 0"
    "overall (ex_markup ex3_world) = 0"
    by (simp_all add: ex2_world_def ex3_world_def ex_markup_def ex_world_def)
  have r: "is_running ex_worker" by (simp add: ex_worker_def)
  from overall_advances_unless_error_caught [where net=ex_net and slugify=ex_slugify
      and r=ex_long and n=9 and k=1, OF ex2_facts(1-3)] ex2_facts(4-12)
  have 1: "overall (snd (snd (run_step ex_slugify ex_net (ex_worker, ex2_world)))) =
          Suc (overall ex2_world) \<and>
        fs (snd (snd (run_step ex_slugify ex_net (ex_worker, ex2_world)))) =
          (fs ex2_world)(target ex_slugify ex_worker (ex_job ''long talk'' ''http://h/e.mp4'')
             \<mapsto> concat (take 1 (body ex_long)))"
    by blast
  have np: "next_print (update_total (next_task ex3_world) 0
      (snd (add_task (label ex_slugify ex_worker (ex_job ''outage'' ''http://h/d.mp4''))
         (ex3_world\<lparr>queue := [Sentinel]\<rparr>)))) = None"
    "next_print (update_total (next_task (ex_markup ex3_world)) 0
      (snd (add_task (label ex_slugify ex_worker (ex_job ''outage'' ''http://h/d.mp4''))
         ((ex_markup ex3_world)\<lparr>queue := [Sentinel]\<rparr>)))) = Some (MarkupError ''[/]'')"
    using ex3_prints
    by (simp_all add: next_print_def update_total_simps add_task_simps)
  from overall_advances_unless_error_caught [where net=ex_net and slugify=ex_slugify,
      OF r ex3_facts(1-2)]
  have 2: "overall (snd (snd (run_step ex_slugify ex_net (ex_worker, ex3_world)))) = overall ex3_world"
    by (simp add: ex3_download np)
  from overall_advances_unless_error_caught [where net=ex_net and slugify=ex_slugify,
      OF r ex3_markup_facts(1-2)]
  have 3: "overall (snd (snd (run_step ex_slugify ex_net (ex_worker, ex_markup ex3_world)))) =
      Suc (overall (ex_markup ex3_world))"
    by (simp add: ex3_markup_download np)
  from 1 2 3 show ?thesis by (simp add: w0 ex2_target ex_long_facts)
qed

text \<open>
  C3, as stated, fails: after a job whose request is answered with status 500 the overall
  task stands where it stood.
\<close>

theorem failed_job_advances_counterexample:
  "fst (run_step ex_slugify ex_net (ex_worker, ex3_world)) = Raised (HTTPError 500) \<and>
   overall (snd (snd (run_step ex_slugify ex_net (ex_worker, ex3_world)))) = overall ex3_world"
  using is_set_frame [OF ex3_facts(1)]
  by (simp add: run_step_status_raises(1) [where net=ex_net and slugify=ex_slugify,
        OF ex3_facts ex3_prints(1)]
      finally_block_simps console_print_simps update_total_simps add_task_simps)

text \<open>
  C3, amended. A job whose download raises, whatever the exception, does not advance the
  overall task when the print of the error in the handler does not raise: the handler
  prints the error and clears the running flag, and the \<open>finally\<close> block advances the
  overall task only while the flag is set; the worker has stopped. The overall task
  advances after a failed job in one case only: the print in the handler raises, so that
  the flag is not cleared; then nothing is printed, the exception leaves \<open>run\<close>, and the
  worker has stopped as well.
\<close>

theorem failed_job_advances_only_if_print_raises:
  assumes "is_running w" and "is_set s = (False, s1)" and "queue s1 = Job e # q"
    and "fst (download_file net (url e) (label slugify w e) (target slugify w e)
            (w\<lparr>task_id := None\<rparr>, s1\<lparr>queue := q\<rparr>)) = Inl err"
  shows "(next_print (snd (snd (download_file net (url e) (label slugify w e)
              (target slugify w e) (w\<lparr>task_id := None\<rparr>, s1\<lparr>queue := q\<rparr>)))) = None \<longrightarrow>
            fst (run_step slugify net (w, s)) = Raised err \<and>
            overall (snd (snd (run_step slugify net (w, s)))) = overall s \<and>
            \<not> is_running (fst (snd (run_step slugify net (w, s)))) \<and>
            console (snd (snd (run_step slugify net (w, s)))) =
              console (snd (snd (download_file net (url e) (label slugify w e)
                (target slugify w e) (w\<lparr>task_id := None\<rparr>, s1\<lparr>queue := q\<rparr>)))) @ [Error err]) \<and>
         (\<forall>print_err.
            next_print (snd (snd (download_file net (url e) (label slugify w e)
              (target slugify w e) (w\<lparr>task_id := None\<rparr>, s1\<lparr>queue := q\<rparr>)))) = Some print_err \<longrightarrow>
            fst (run_step slugify net (w, s)) = Escaped print_err \<and>
            overall (snd (snd (run_step slugify net (w, s)))) = Suc (overall s) \<and>
            is_running (fst (snd (run_step slugify net (w, s)))) \<and>
            crashed (fst (snd (run_step slugify net (w, s)))) \<and>
            console (snd (snd (run_step slugify net (w, s)))) =
              console (snd (snd (download_file net (url e) (label slugify w e)
                (target slugify w e) (w\<lparr>task_id := None\<rparr>, s1\<lparr>queue := q\<rparr>)))))"
proof -
  let ?d = "download_file net (url e) (label slugify w e) (target slugify w e)
            (w\<lparr>task_id := None\<rparr>, s1\<lparr>queue := q\<rparr>)"
  note o = run_step_job_outcome [where net=net and slugify=slugify and w=w, OF assms(2) assms(3)]
  show ?thesis
  proof (cases "next_print (snd (snd ?d))")
    case None
    with o(1) assms(4) have oc: "fst (run_step slugify net (w, s)) = Raised err" by simp
    from o(2) oc have r: "\<not> is_running (fst (snd (run_step slugify net (w, s))))" by simp
    from o(4) r have "overall (snd (snd (run_step slugify net (w, s)))) = overall s" by simp
    with oc r o(5) None show ?thesis by simp
  next
    case (Some print_err)
    with o(1) assms(4) have oc: "fst (run_step slugify net (w, s)) = Escaped print_err" by simp
    from o(2) oc assms(1) have r: "is_running (fst (snd (run_step slugify net (w, s))))" by simp
    from o(3) oc have c: "crashed (fst (snd (run_step slugify net (w, s))))" by simp
    from o(4) r have "overall (snd (snd (run_step slugify net (w, s)))) = Suc (overall s)" by simp
    with oc r c o(5) Some show ?thesis by simp
  qed
qed

theorem failed_job_advances_only_if_print_raises_witness:
  "fst (run_step ex_slugify ex_net (ex_worker, ex3_world)) = Raised (HTTPError 500) \<and>
   overall (snd (snd (run_step ex_slugify ex_net (ex_worker, ex3_world)))) = 0 \<and>
   \<not> is_running (fst (snd (run_step ex_slugify ex_net (ex_worker, ex3_world)))) \<and>
   console (snd (snd (run_step ex_slugify ex_net (ex_worker, ex3_world)))) =
     [Error (HTTPError 500)] \<and>
   fst (run_step ex_slugify ex_net (ex_worker, ex_markup ex3_world)) =
     Escaped (MarkupError ''[/]'') \<and>
   overall (snd (snd (run_step ex_slugify ex_net (ex_worker, ex_markup ex3_world)))) = 1 \<and>
   crashed (fst (snd (run_step ex_slugify ex_net (ex_worker, ex_markup ex3_world)))) \<and>
   console (snd (snd (run_step ex_slugify ex_net (ex_worker, ex_markup ex3_world)))) = []"
proof -
  have r: "is_running ex_worker" by (simp add: ex_worker_def)
  have o: "overall ex3_world = 0" "console ex3_world = []"
    "overall (ex_markup ex3_world) = 0" "console (ex_markup ex3_world) = []"
    by (simp_all add: ex3_world_def ex_markup_def ex_world_def)
  have np: "next_print (update_total (next_task ex3_world) 0
      (snd (add_task (label ex_slugify ex_worker (ex_job ''outage'' ''http://h/d.mp4''))
         (ex3_world\<lparr>queue := [Sentinel]\<rparr>)))) = None"
    "next_print (update_total (next_task (ex_markup ex3_world)) 0
      (snd (add_task (label ex_slugify ex_worker (ex_job ''outage'' ''http://h/d.mp4''))
         ((ex_markup ex3_world)\<lparr>queue := [Sentinel]\<rparr>)))) = Some (MarkupError ''[/]'')"
    using ex3_prints
    by (simp_all add: next_print_def update_total_simps add_task_simps)
  from failed_job_advances_only_if_print_raises [where net=ex_net and slugify=ex_slugify
      and w=ex_worker and err="HTTPError 500", OF r ex3_facts(1) ex3_facts(2)]
  have 1: "fst (run_step ex_slugify ex_net (ex_worker, ex3_world)) = Raised (HTTPError 500) \<and>
      overall (snd (snd (run_step ex_slugify ex_net (ex_worker, ex3_world)))) = 0 \<and>
      \<not> is_running (fst (snd (run_step ex_slugify ex_net (ex_worker, ex3_world)))) \<and>
      console (snd (snd (run_step ex_slugify ex_net (ex_worker, ex3_world)))) =
        [Error (HTTPError 500)]"
    by (simp add: ex3_download np o update_total_simps add_task_simps)
  from failed_job_advances_only_if_print_raises [where net=ex_net and slugify=ex_slugify
      and w=ex_worker and err="HTTPError 500", OF r ex3_markup_facts(1) ex3_markup_facts(2)]
  have 2: "fst (run_step ex_slugify ex_net (ex_worker, ex_markup ex3_world)) =
        Escaped (MarkupError ''[/]'') \<and>
      overall (snd (snd (run_step ex_slugify ex_net (ex_worker, ex_markup ex3_world)))) = 1 \<and>
      crashed (fst (snd (run_step ex_slugify ex_net (ex_worker, ex_markup ex3_world)))) \<and>
      console (snd (snd (run_step ex_slugify ex_net (ex_worker, ex_markup ex3_world)))) = []"
    by (simp add: ex3_markup_download np o update_total_simps add_task_simps)
  from 1 2 show ?thesis by simp
qed

section \<open>Runs over a queue of jobs\<close>

subsection \<open>Jobs that are skipped\<close>

lemma is_set_never: "stop_after s = None \<Longrightarrow> is_set s = (False, s)"
  by (simp add: is_set_def)

lemma target_cong: "output_path w' = output_path w \<Longrightarrow> target slugify w' e = target slugify w e"
  by (simp add: target_def)

lemma next_print_quiet: "print_errors s = [] \<Longrightarrow> next_print s = None"
  by (simp add: next_print_def)




subsection \<open>A run in which every transfer completes\<close>





section \<open>Claim C4: the skip policy\<close>

lemmas eval_defs =
  pool_step_def new_worker_def run_step_def is_set_def download_file_def add_task_def
  update_total_def start_task_def open_wb_def truncate_file_def write_chunk_def
  append_bytes_def
  advance_task_def remove_task_def console_print_def
  finally_block_def remote_size_def raise_for_status_def same_size_def
  write_chunks.simps(2) Let_def












section \<open>Properties of the download phase\<close>

subsection \<open>What a pass changes\<close>

lemma run_step_frame:
  assumes "run_step slugify net (w, s) = (oc, w', s')"
  shows "output_path w' = output_path w \<and>
         (queue s' = queue s \<or> queue s' = tl (queue s)) \<and>
         (\<forall>p. fs s' p \<noteq> fs s p \<longrightarrow> (\<exists>e q. queue s = Job e # q \<and> p = target slugify w e))"
proof -
  obtain b s1 where b: "is_set s = (b, s1)" by (cases "is_set s")
  note f = is_set_frame [OF b]
  show ?thesis
  proof (cases b)
    case True
    with b assms f show ?thesis by (auto simp: run_step_cancelled)
  next
    case False
    with b have nb: "is_set s = (False, s1)" by simp
    show ?thesis
    proof (cases "queue s1")
      case Nil
      with nb assms f show ?thesis by (auto simp: run_step_blocked)
    next
      case (Cons i q)
      with f have qs: "queue s = i # q" by simp
      show ?thesis
      proof (cases i)
        case Sentinel
        with Cons have "queue s1 = Sentinel # q" by simp
        from run_step_sentinel [OF nb this] assms f qs show ?thesis by auto
      next
        case (Job e)
        with Cons have qj: "queue s1 = Job e # q" by simp
        note js = run_step_job_state [where net=net and slugify=slugify and w=w, OF nb qj]
        from js(6) assms have 1: "output_path w' = output_path w" by simp
        from js(3) assms qs have 2: "queue s' = tl (queue s)" by simp
        have 3: "fs s' p = fs s p" if "p \<noteq> target slugify w e" for p
          using js(1) assms f that by (simp add: download_file_fs_other)
        from 1 2 3 qs Job show ?thesis by auto
      qed
    qed
  qed
qed

subsection \<open>Where the phase writes\<close>

lemma pool_step_pass:
  assumes "pool_step slugify net (Pass i) p = Some p'"
  obtains oc w' s' where "i < length (workers p)" and "is_running (workers p ! i)"
    and "\<not> crashed (workers p ! i)"
    and "run_step slugify net (workers p ! i, shared p) = (oc, w', s')"
    and "oc \<noteq> Blocked"
    and "p' = p\<lparr>shared := s', workers := (workers p)[i := w'],
                                history := history p @ [(i, oc)]\<rparr>"
proof -
  from assms have i: "i < length (workers p)" and r: "is_running (workers p ! i)"
    and c: "\<not> crashed (workers p ! i)"
    by (simp_all add: pool_step_def split: if_splits)
  obtain oc w' s' where st: "run_step slugify net (workers p ! i, shared p) = (oc, w', s')"
    by (rule prod_cases3)
  with assms i r c have nb: "oc \<noteq> Blocked"
    and p': "p' = p\<lparr>shared := s', workers := (workers p)[i := w'],
                                history := history p @ [(i, oc)]\<rparr>"
    by (simp_all add: pool_step_def split: if_splits)
  from i r c st nb p' show ?thesis by (rule that)
qed

lemma pool_step_spawn:
  assumes "pool_step slugify net Spawn p = Some p'"
  shows "to_spawn p \<noteq> 0"
    and "p' = p\<lparr>shared := (shared p)\<lparr>queue := queue (shared p) @ [Sentinel]\<rparr>,
                        workers := workers p @ [new_worker (output_dir p)],
                        to_spawn := to_spawn p - 1,
                        enqueued := enqueued p @ [Sentinel]\<rparr>"
  using assms by (simp_all add: pool_step_def split: if_splits)

lemma writes_under_start:
  "writes_under cwd slugify js (fs s) (cli_download cwd output_opt threads js s)"
  by (auto simp: writes_under_def cli_download_def)

lemma writes_under_step:
  assumes "writes_under cwd slugify js files p" and "pool_step slugify net a p = Some p'"
  shows "writes_under cwd slugify js files p'"
proof (cases a)
  case Spawn
  with assms(2) have p': "p' = p\<lparr>shared := (shared p)\<lparr>queue := queue (shared p) @ [Sentinel]\<rparr>,
                        workers := workers p @ [new_worker (output_dir p)],
                        to_spawn := to_spawn p - 1,
                        enqueued := enqueued p @ [Sentinel]\<rparr>"
    by (simp only: pool_step_spawn(2))
  from assms(1) show ?thesis
    by (auto simp: writes_under_def p' new_worker_def)
next
  case (Pass i)
  with assms(2) have "pool_step slugify net (Pass i) p = Some p'" by simp
  then obtain oc w' s' where i: "i < length (workers p)"
    and st: "run_step slugify net (workers p ! i, shared p) = (oc, w', s')"
    and p': "p' = p\<lparr>shared := s', workers := (workers p)[i := w'],
                                history := history p @ [(i, oc)]\<rparr>"
    by (rule pool_step_pass)
  note f = run_step_frame [OF st]
  from assms(1) i have wi: "output_path (workers p ! i) = cwd @ [''output'']"
    by (simp add: writes_under_def)
  with f have w': "output_path w' = cwd @ [''output'']" by simp
  have 2: "\<forall>w\<in>set ((workers p)[i := w']). output_path w = cwd @ [''output'']"
  proof
    fix w assume "w \<in> set ((workers p)[i := w'])"
    then have "w = w' \<or> w \<in> set (workers p)"
      using set_update_subset_insert [of "workers p" i w'] by auto
    with w' assms(1) show "output_path w = cwd @ [''output'']"
      by (auto simp: writes_under_def)
  qed
  have "set (tl (queue (shared p))) \<subseteq> set (queue (shared p))"
    by (cases "queue (shared p)") auto
  with f have "set (queue s') \<subseteq> set (queue (shared p))"
    by auto
  with assms(1) have 3: "\<forall>e. Job e \<in> set (queue s') \<longrightarrow> e \<in> set js"
    by (auto simp: writes_under_def)
  have 4: "\<exists>e\<in>set js. x = cwd @ [''output'', slugify (title e) @ ''.mp4'']"
    if x: "fs s' x \<noteq> files x" for x
  proof (cases "fs s' x = fs (shared p) x")
    case True
    with x assms(1) show ?thesis by (simp add: writes_under_def)
  next
    case False
    with f obtain e q where q: "queue (shared p) = Job e # q"
      and t: "x = target slugify (workers p ! i) e" by blast
    from q assms(1) have "e \<in> set js" by (simp add: writes_under_def)
    with t wi show ?thesis by (auto simp: target_def)
  qed
  from assms(1) 2 3 4 show ?thesis
    by (simp add: writes_under_def p')
qed

lemma writes_under_exec:
  assumes "writes_under cwd slugify js files p" and "exec slugify net acts p = Some p'"
  shows "writes_under cwd slugify js files p'"
  using assms
proof (induction acts arbitrary: p)
  case Nil
  then show ?case by simp
next
  case (Cons a acts)
  from Cons.prems(2) obtain p1 where 1: "pool_step slugify net a p = Some p1"
    and 2: "exec slugify net acts p1 = Some p'"
    by (auto split: option.splits)
  from Cons.IH [OF writes_under_step [OF Cons.prems(1) 1] 2] show ?case .
qed

lemma ex8_run:
  "\<exists>p. exec ex_slugify ex_net [Spawn, Pass 0, Pass 0] (ex8_start output_opt) = Some p \<and>
       fs (shared p) = [[''home'', ''output'', ''intro-to-x.mp4''] \<mapsto> ''abcdef''] \<and>
       map output_path (workers p) = [[''home'', ''output'']] \<and>
       history p = [(0, Returned), (0, GotSentinel)]"
  by (simp add: ex8_start_def cli_download_def ex_world_def eval_defs ex_net_def ex_job_def
      ex_response_def ex_slugify_def py_int_6)

section \<open>Claim C8: the output option\<close>

text \<open>
  C8. \<open>cli\<close> takes the value of \<open>--output\<close> and never reads it: the directory handed to
  every worker is \<open>pathlib.Path.cwd() / "output"\<close>. So the download phase is the same for
  any two values of the option: it starts in the same state and, the threads taking
  their turns in the same order, ends in the same state; every worker writes to
  \<open>cwd/output\<close>, and a file that differs from what it was before the phase is at
  \<open>cwd/output/<slug>.mp4\<close> for the slug of a job's title.
\<close>

theorem output_option_has_no_effect:
  "cli_download cwd out1 threads js s = cli_download cwd out2 threads js s \<and>
   exec slugify net acts (cli_download cwd out1 threads js s) =
     exec slugify net acts (cli_download cwd out2 threads js s) \<and>
   (exec slugify net acts (cli_download cwd out1 threads js s) = Some p \<longrightarrow>
      (\<forall>w\<in>set (workers p). output_path w = cwd @ [''output'']) \<and>
      (\<forall>x. fs (shared p) x \<noteq> fs s x \<longrightarrow>
           (\<exists>e\<in>set js. x = cwd @ [''output'', slugify (title e) @ ''.mp4''])))"
proof -
  have 1: "cli_download cwd out1 threads js s = cli_download cwd out2 threads js s"
    by (simp add: cli_download_def)
  have 3: "(\<forall>w\<in>set (workers p). output_path w = cwd @ [''output'']) \<and>
      (\<forall>x. fs (shared p) x \<noteq> fs s x \<longrightarrow>
           (\<exists>e\<in>set js. x = cwd @ [''output'', slugify (title e) @ ''.mp4'']))"
    if h: "exec slugify net acts (cli_download cwd out1 threads js s) = Some p"
    using writes_under_exec [OF writes_under_start h] by (simp add: writes_under_def)
  from 1 3 show ?thesis by simp
qed

theorem output_option_has_no_effect_witness:
  "\<exists>p. exec ex_slugify ex_net [Spawn, Pass 0, Pass 0] (ex8_start (Some ''elsewhere'')) = Some p \<and>
       exec ex_slugify ex_net [Spawn, Pass 0, Pass 0] (ex8_start None) = Some p \<and>
       fs (shared p) = [[''home'', ''output'', ''intro-to-x.mp4''] \<mapsto> ''abcdef''] \<and>
       (\<forall>w\<in>set (workers p). output_path w = [''home'', ''output'']) \<and>
       (\<forall>x. fs (shared p) x \<noteq> None \<longrightarrow> x = [''home'', ''output'', ''intro-to-x.mp4''])"
proof -
  from ex8_run [of "Some ''elsewhere''"] obtain p
    where p: "exec ex_slugify ex_net [Spawn, Pass 0, Pass 0] (ex8_start (Some ''elsewhere'')) = Some p"
      and f: "fs (shared p) = [[''home'', ''output'', ''intro-to-x.mp4''] \<mapsto> ''abcdef'']"
    by blast
  note t = output_option_has_no_effect [where cwd="[''home'']" and ?out1.0="Some ''elsewhere''"
      and ?out2.0=None and threads=1 and js="[ex_job ''intro to x'' ''http://h/a.mp4'']"
      and s="ex_world Map.empty [] None" and slugify=ex_slugify and net=ex_net
      and acts="[Spawn, Pass 0, Pass 0]" and p=p, folded ex8_start_def]
  from t p have 2: "exec ex_slugify ex_net [Spawn, Pass 0, Pass 0] (ex8_start None) = Some p"
    by simp
  from t p have 3: "\<forall>w\<in>set (workers p). output_path w = [''home'', ''output'']"
    by simp
  from t p have "\<forall>x. fs (shared p) x \<noteq> fs (ex_world Map.empty [] None) x \<longrightarrow>
      x = [''home'', ''output'', ex_slugify (title (ex_job ''intro to x'' ''http://h/a.mp4'')) @ ''.mp4'']"
    by simp
  then have 4: "\<forall>x. fs (shared p) x \<noteq> None \<longrightarrow> x = [''home'', ''output'', ''intro-to-x.mp4'']"
    by (simp add: ex_world_def ex_slugify_def ex_job_def)
  from p 2 f 3 4 show ?thesis by blast
qed

section \<open>Sentinels and workers\<close>

subsection \<open>A pass while the stop event is never set\<close>

lemma run_step_no_cancel:
  assumes "stop_after s = None" and "is_running w" and "\<not> crashed w"
    and "run_step slugify net (w, s) = (oc, w', s')"
  shows "stop_after s' = None \<and>
         (case queue s of
            [] \<Rightarrow> oc = Blocked
          | Sentinel # q \<Rightarrow> oc = GotSentinel \<and> \<not> is_running w' \<and> \<not> crashed w' \<and> queue s' = q
          | Job e # q \<Rightarrow> queue s' = q \<and>
              (oc = Returned \<and> is_running w' \<and> \<not> crashed w' \<or>
               (\<exists>err. oc = Raised err) \<and> \<not> is_running w' \<and> \<not> crashed w' \<or>
               (\<exists>err. oc = Escaped err) \<and> is_running w' \<and> crashed w'))"
proof -
  from assms(1) have i: "is_set s = (False, s)" by (rule is_set_never)
  show ?thesis
  proof (cases "queue s")
    case Nil
    from run_step_blocked [OF i Nil, of slugify net w] assms(4)
    have "oc = Blocked" "s' = s" by simp_all
    with assms(1) Nil show ?thesis by simp
  next
    case (Cons it q)
    show ?thesis
    proof (cases it)
      case Sentinel
      with Cons have q: "queue s = Sentinel # q" by simp
      from run_step_sentinel [OF i q, of slugify net w] assms(4) assms(3)
      have "oc = GotSentinel" "s' = s\<lparr>queue := q\<rparr>" "\<not> is_running w'" "\<not> crashed w'" by auto
      with assms(1) q show ?thesis by simp
    next
      case (Job e)
      with Cons have q: "queue s = Job e # q" by simp
      let ?d = "download_file net (url e) (label slugify w e) (target slugify w e)
                (w\<lparr>task_id := None\<rparr>, s\<lparr>queue := q\<rparr>)"
      note js = run_step_job_state [where net=net and slugify=slugify and w=w, OF i q]
      note o = run_step_job_outcome [where net=net and slugify=slugify and w=w, OF i q]
      from assms(1) have "stop_after (s\<lparr>queue := q\<rparr>) = None" by simp
      from download_file_stop_none [OF this] js(2) assms(4)
      have 1: "stop_after s' = None" by simp
      from js(3) assms(4) have 2: "queue s' = q" by simp
      from o(1) assms(4) have 4: "oc = Returned \<or> (\<exists>err. oc = Raised err) \<or> (\<exists>err. oc = Escaped err)"
        by (simp split: sum.splits option.splits)
      from o(2) o(3) assms(2) assms(3) assms(4)
      have 3: "is_running w' = (case oc of Raised err \<Rightarrow> False | _ \<Rightarrow> True)"
        "crashed w' = (case oc of Escaped err \<Rightarrow> True | _ \<Rightarrow> False)"
        by simp_all
      from 1 2 3 4 show ?thesis by (auto simp: q)
    qed
  qed
qed

lemma run_step_quiet:
  assumes "print_errors s = []" and "\<not> crashed w"
    and "run_step slugify net (w, s) = (oc, w', s')"
  shows "print_errors s' = [] \<and> \<not> crashed w'"
proof -
  obtain b s1 where b: "is_set s = (b, s1)" by (cases "is_set s")
  from is_set_frame [OF b] assms(1) have p1: "print_errors s1 = []" by simp
  have "print_errors (snd (snd (run_step slugify net (w, s)))) = [] \<and>
        \<not> crashed (fst (snd (run_step slugify net (w, s))))"
  proof (cases b)
    case True
    with b assms(2) p1 show ?thesis by (simp add: run_step_cancelled)
  next
    case False
    with b have nb: "is_set s = (False, s1)" by simp
    show ?thesis
    proof (cases "queue s1")
      case Nil
      with nb assms(2) p1 show ?thesis by (simp add: run_step_blocked)
    next
      case (Cons i q)
      show ?thesis
      proof (cases i)
        case Sentinel
        with Cons have "queue s1 = Sentinel # q" by simp
        from run_step_sentinel [OF nb this] assms(2) p1 show ?thesis by simp
      next
        case (Job e)
        with Cons have qj: "queue s1 = Job e # q" by simp
        from p1 have "print_errors (s1\<lparr>queue := q\<rparr>) = []" by simp
        note pe = download_file_print_errors [where net=net and u="url e"
            and name="label slugify w e" and p="target slugify w e"
            and w="w\<lparr>task_id := None\<rparr>", OF this]
        from nb qj show ?thesis
        proof (cases rule: run_step_job_cases [where net=net and slugify=slugify and w=w])
          case (returned w2 s2)
          from download_file_worker_res [OF returned(1)] assms(2) have "\<not> crashed w2" by simp
          moreover from returned(1) pe have "print_errors s2 = []" by simp
          ultimately show ?thesis by (simp add: returned(2) finally_block_simps)
        next
          case (raised err w2 s2)
          from download_file_worker_res [OF raised(1)] assms(2) have "\<not> crashed w2" by simp
          moreover from raised(1) pe have "print_errors s2 = []" by simp
          ultimately show ?thesis
            by (simp add: raised(3) finally_block_simps console_print_simps)
        next
          case (escaped err print_err w2 s2)
          from escaped(1) pe have "print_errors s2 = []" by simp
          then have "next_print s2 = None" by (rule next_print_quiet)
          with escaped(2) show ?thesis by simp
        qed
      qed
    qed
  qed
  with assms(3) show ?thesis by simp
qed

lemma passes_step:
  "passes j (p\<lparr>shared := s', workers := ws', history := history p @ [(i, oc)]\<rparr>) =
     (if j = i then passes i p @ [oc] else passes j p)"
  by (simp add: passes_def)

lemma passes_spawn:
  "passes j (p\<lparr>shared := s', workers := ws', to_spawn := n, enqueued := en\<rparr>) = passes j p"
  by (simp add: passes_def)

lemma running_update:
  assumes "i < length ws"
  shows "running (ws[i := w]) + (if active (ws ! i) then 1 else 0) =
         running ws + (if active w then 1 else 0)"
proof -
  from assms have a: "ws[i := w] = take i ws @ w # drop (Suc i) ws"
    by (rule upd_conv_take_nth_drop)
  from assms have b: "ws = take i ws @ ws ! i # drop (Suc i) ws"
    by (rule id_take_nth_drop)
  have "running (take i ws @ w # drop (Suc i) ws) + (if active (ws ! i) then 1 else 0) =
        running (take i ws @ ws ! i # drop (Suc i) ws) + (if active w then 1 else 0)"
    by (simp add: running_def)
  with a b show ?thesis by metis
qed

lemma running_pos: "i < length ws \<Longrightarrow> active (ws ! i) \<Longrightarrow> 0 < running ws"
  using nth_mem [of i ws] by (auto simp: running_def filter_empty_conv)

subsection \<open>The sentinels in the queue and the workers that run\<close>

lemma balanced_start:
  "stop_after s = None \<Longrightarrow> balanced js (nat threads) (cli_download cwd output_opt threads js s)"
  by (simp add: balanced_def cli_download_def passes_def running_def)

lemma balanced_spawn:
  assumes "balanced js W p" and "pool_step slugify net Spawn p = Some p'"
  shows "balanced js W p'"
proof -
  note n = pool_step_spawn(1) [OF assms(2)] and p' = pool_step_spawn(2) [OF assms(2)]
  have ps: "\<And>j. passes j p' = passes j p" by (simp add: p' passes_def)
  from assms(1) have 1: "stop_after (shared p') = None" by (simp add: balanced_def p')
  from assms(1) have 2: "enqueued p' = map Job js @ replicate (length (workers p')) Sentinel"
    by (simp add: balanced_def p' replicate_append_same)
  from assms(1) n have 3: "length (workers p') + to_spawn p' = W"
    by (auto simp: balanced_def p')
  have 4: "worker_ok (workers p' ! i) (passes i p')" if "i < length (workers p')" for i
  proof (cases "i < length (workers p)")
    case True
    with assms(1) show ?thesis by (simp add: balanced_def p' ps nth_append passes_def)
  next
    case False
    with that have "i = length (workers p)" by (simp add: p')
    with assms(1) show ?thesis
      by (simp add: balanced_def p' ps passes_def worker_ok_def new_worker_def)
  qed
  from assms(1) have 5: "\<forall>i\<ge>length (workers p'). passes i p' = []"
    by (simp add: balanced_def p' passes_def)
  from assms(1) have 6: "running (workers p') \<le> count_list (queue (shared p')) Sentinel"
    by (simp add: balanced_def p' running_def new_worker_def active_def)
  from 1 2 3 4 5 6 show ?thesis by (simp add: balanced_def)
qed

lemma balanced_pass:
  assumes "balanced js W p" and "pool_step slugify net (Pass i) p = Some p'"
  shows "balanced js W p'"
proof -
  from assms(2) obtain oc w' s' where i: "i < length (workers p)"
    and r: "is_running (workers p ! i)" and c: "\<not> crashed (workers p ! i)"
    and st: "run_step slugify net (workers p ! i, shared p) = (oc, w', s')"
    and nb: "oc \<noteq> Blocked"
    and p': "p' = p\<lparr>shared := s', workers := (workers p)[i := w'],
                                history := history p @ [(i, oc)]\<rparr>"
    by (rule pool_step_pass)
  from r c have a: "active (workers p ! i)" by (simp add: active_def)
  from assms(1) have sa: "stop_after (shared p) = None" by (simp add: balanced_def)
  note nc = run_step_no_cancel [OF sa r c st]
  have ps: "\<And>j. passes j p' = (if j = i then passes i p @ [oc] else passes j p)"
    by (simp add: p' passes_def)
  from assms(1) i have "worker_ok (workers p ! i) (passes i p)" by (simp add: balanced_def)
  with r c obtain k where k: "passes i p = replicate k Returned"
    by (auto simp: worker_ok_def)
  have shape: "oc = GotSentinel \<and> \<not> is_running w' \<and> \<not> crashed w' \<or>
      (\<exists>err. oc = Raised err) \<and> \<not> is_running w' \<and> \<not> crashed w' \<or>
      (\<exists>err. oc = Escaped err) \<and> is_running w' \<and> crashed w' \<or>
      oc = Returned \<and> is_running w' \<and> \<not> crashed w'"
    using nc nb by (cases "queue (shared p)") (auto split: item.splits)
  have cnt: "count_list (queue s') Sentinel + (if active w' then 0 else 1) \<ge>
      count_list (queue (shared p)) Sentinel"
    using nc nb by (cases "queue (shared p)") (auto simp: active_def split: item.splits)
  from nc have 1: "stop_after (shared p') = None" by (simp add: p')
  from assms(1) have 2: "enqueued p' = map Job js @ replicate (length (workers p')) Sentinel"
    by (simp add: balanced_def p')
  from assms(1) have 3: "length (workers p') + to_spawn p' = W"
    by (simp add: balanced_def p')
  have 4: "worker_ok (workers p' ! j) (passes j p')" if j: "j < length (workers p')" for j
  proof (cases "j = i")
    case True
    with i have w: "workers p' ! j = w'" by (simp add: p')
    from True k have pj: "passes j p' = replicate k Returned @ [oc]" by (simp add: ps)
    from shape show ?thesis
    proof (elim disjE)
      assume "oc = GotSentinel \<and> \<not> is_running w' \<and> \<not> crashed w'"
      with pj w show ?thesis by (auto simp: worker_ok_def)
    next
      assume "(\<exists>err. oc = Raised err) \<and> \<not> is_running w' \<and> \<not> crashed w'"
      with pj w show ?thesis by (auto simp: worker_ok_def)
    next
      assume "(\<exists>err. oc = Escaped err) \<and> is_running w' \<and> crashed w'"
      with pj w show ?thesis by (auto simp: worker_ok_def)
    next
      assume h: "oc = Returned \<and> is_running w' \<and> \<not> crashed w'"
      with pj have "passes j p' = replicate (Suc k) Returned"
        by (simp add: replicate_append_same)
      with h w show ?thesis unfolding worker_ok_def by metis
    qed
  next
    case False
    then have a: "passes j p' = passes j p" by (simp add: ps)
    from False have b: "workers p' ! j = workers p ! j" by (simp add: p')
    from j have "j < length (workers p)" by (simp add: p')
    with assms(1) have "worker_ok (workers p ! j) (passes j p)" by (simp add: balanced_def)
    with a b show ?thesis by simp
  qed
  have len: "length (workers p') = length (workers p)" by (simp add: p')
  have 5: "\<forall>j\<ge>length (workers p'). passes j p' = []"
  proof (intro allI impI)
    fix j assume "length (workers p') \<le> j"
    with len i have "j \<noteq> i" "length (workers p) \<le> j" by simp_all
    with assms(1) show "passes j p' = []" by (simp add: ps balanced_def)
  qed
  from running_update [OF i, of w'] a
  have "running ((workers p)[i := w']) + 1 = running (workers p) + (if active w' then 1 else 0)"
    by simp
  with assms(1) cnt have 6: "running (workers p') \<le> count_list (queue (shared p')) Sentinel"
    by (auto simp: balanced_def p' split: if_splits)
  from 1 2 3 4 5 6 show ?thesis by (simp add: balanced_def)
qed

lemma balanced_exec:
  assumes "balanced js W p" and "exec slugify net acts p = Some p'"
  shows "balanced js W p'"
  using assms
proof (induction acts arbitrary: p)
  case Nil
  then show ?case by simp
next
  case (Cons a acts)
  from Cons.prems(2) obtain p1 where 1: "pool_step slugify net a p = Some p1"
    and 2: "exec slugify net acts p1 = Some p'"
    by (auto split: option.splits)
  have "balanced js W p1"
  proof (cases a)
    case Spawn
    with 1 Cons.prems(1) show ?thesis by (simp add: balanced_spawn)
  next
    case (Pass i)
    with 1 Cons.prems(1) show ?thesis by (simp add: balanced_pass)
  qed
  from Cons.IH [OF this 2] show ?case .
qed

lemma balanced_not_blocked:
  assumes "balanced js W p" and "i < length (workers p)" and "is_running (workers p ! i)"
    and "\<not> crashed (workers p ! i)"
  shows "pool_step slugify net (Pass i) p \<noteq> None"
proof -
  obtain oc w' s' where st: "run_step slugify net (workers p ! i, shared p) = (oc, w', s')"
    by (rule prod_cases3)
  from assms(1) have sa: "stop_after (shared p) = None" by (simp add: balanced_def)
  from assms(3) assms(4) have "active (workers p ! i)" by (simp add: active_def)
  from running_pos [OF assms(2) this] assms(1)
  have "0 < count_list (queue (shared p)) Sentinel" by (simp add: balanced_def)
  then have "queue (shared p) \<noteq> []" by auto
  with run_step_no_cancel [OF sa assms(3) assms(4) st] have "oc \<noteq> Blocked"
    by (cases "queue (shared p)") (auto split: item.splits)
  with st assms(2) assms(3) assms(4) show ?thesis by (simp add: pool_step_def)
qed

subsection \<open>A console that prints every line\<close>

lemma quiet_start:
  "print_errors s = [] \<Longrightarrow> quiet (cli_download cwd output_opt threads js s)"
  by (simp add: quiet_def cli_download_def)

lemma quiet_step:
  assumes "quiet p" and "pool_step slugify net a p = Some p'"
  shows "quiet p'"
proof (cases a)
  case Spawn
  with assms(2) have p': "p' = p\<lparr>shared := (shared p)\<lparr>queue := queue (shared p) @ [Sentinel]\<rparr>,
                        workers := workers p @ [new_worker (output_dir p)],
                        to_spawn := to_spawn p - 1,
                        enqueued := enqueued p @ [Sentinel]\<rparr>"
    by (simp only: pool_step_spawn(2))
  from assms(1) show ?thesis by (auto simp: quiet_def p' new_worker_def)
next
  case (Pass i)
  with assms(2) have "pool_step slugify net (Pass i) p = Some p'" by simp
  then obtain oc w' s' where i: "i < length (workers p)"
    and c: "\<not> crashed (workers p ! i)"
    and st: "run_step slugify net (workers p ! i, shared p) = (oc, w', s')"
    and p': "p' = p\<lparr>shared := s', workers := (workers p)[i := w'],
                                history := history p @ [(i, oc)]\<rparr>"
    by (rule pool_step_pass)
  from assms(1) have pe: "print_errors (shared p) = []" by (simp add: quiet_def)
  note q = run_step_quiet [OF pe c st]
  have "\<forall>w\<in>set ((workers p)[i := w']). \<not> crashed w"
  proof
    fix w assume "w \<in> set ((workers p)[i := w'])"
    then have "w = w' \<or> w \<in> set (workers p)"
      using set_update_subset_insert [of "workers p" i w'] by auto
    with q assms(1) show "\<not> crashed w" by (auto simp: quiet_def)
  qed
  with q show ?thesis by (simp add: quiet_def p')
qed

lemma quiet_exec:
  assumes "quiet p" and "exec slugify net acts p = Some p'"
  shows "quiet p'"
  using assms
proof (induction acts arbitrary: p)
  case Nil
  then show ?case by simp
next
  case (Cons a acts)
  from Cons.prems(2) obtain p1 where 1: "pool_step slugify net a p = Some p1"
    and 2: "exec slugify net acts p1 = Some p'"
    by (auto split: option.splits)
  from Cons.IH [OF quiet_step [OF Cons.prems(1) 1] 2] show ?case .
qed

section \<open>Claim C5: the sentinels\<close>

text \<open>
  C5, as stated, fails: with one worker and one job whose request is answered with
  status 404, and the stop event never set, the worker stops in its first pass. It has
  taken no sentinel; the sentinel put for it is still in the queue.
\<close>

theorem worker_stops_without_sentinel_counterexample:
  "\<exists>p. exec ex_slugify ex_net [Spawn, Pass 0] ex5_start = Some p \<and>
       stop_after (shared p) = None \<and> to_spawn p = 0 \<and>
       map is_running (workers p) = [False] \<and>
       passes 0 p = [Raised (HTTPError 404)] \<and>
       queue (shared p) = [Sentinel]"
  by (simp add: ex5_start_def cli_download_def ex_world_def eval_defs ex_net_def ex_job_def
      ex_response_def ex_slugify_def py_int_3 passes_def)

text \<open>
  C5, amended. In every state the download phase reaches with the stop event never set,
  the coordinator has put all the jobs and then exactly one sentinel for each worker it
  has started; workers started and workers still to start add up to \<open>threads\<close> (to zero for
  a negative number). A worker that still runs has taken no sentinel, and its next pass
  does not block. A worker that has stopped stopped in its last pass. If its flag is
  clear, it stopped either by taking a sentinel, its first and only one, or because the
  download of a job raised and the handler caught the exception; in that case it has
  taken no sentinel. If an exception has left its \<open>run\<close>, the download of a job raised and
  the print in the handler raised in its turn: it has taken no sentinel either, and its
  flag is still set. On a console that prints every line no exception leaves \<open>run\<close>.
\<close>

theorem sentinel_balance:
  assumes "stop_after s = None"
    and "exec slugify net acts (cli_download cwd output_opt threads js s) = Some p"
  shows "enqueued p = map Job js @ replicate (length (workers p)) Sentinel \<and>
         length (workers p) + to_spawn p = nat threads \<and>
         (\<forall>i<length (workers p).
            (is_running (workers p ! i) \<and> \<not> crashed (workers p ! i) \<longrightarrow>
               (\<exists>k. passes i p = replicate k Returned) \<and>
               pool_step slugify net (Pass i) p \<noteq> None) \<and>
            (\<not> is_running (workers p ! i) \<longrightarrow>
               (\<exists>k. passes i p = replicate k Returned @ [GotSentinel] \<or>
                    (\<exists>err. passes i p = replicate k Returned @ [Raised err]))) \<and>
            (crashed (workers p ! i) \<longrightarrow>
               is_running (workers p ! i) \<and>
               (\<exists>k err. passes i p = replicate k Returned @ [Escaped err]))) \<and>
         (print_errors s = [] \<longrightarrow> (\<forall>w\<in>set (workers p). \<not> crashed w))"
proof -
  note b = balanced_exec [OF balanced_start [OF assms(1)] assms(2)]
  have w: "(is_running (workers p ! i) \<and> \<not> crashed (workers p ! i) \<longrightarrow>
               (\<exists>k. passes i p = replicate k Returned) \<and>
               pool_step slugify net (Pass i) p \<noteq> None) \<and>
            (\<not> is_running (workers p ! i) \<longrightarrow>
               (\<exists>k. passes i p = replicate k Returned @ [GotSentinel] \<or>
                    (\<exists>err. passes i p = replicate k Returned @ [Raised err]))) \<and>
            (crashed (workers p ! i) \<longrightarrow>
               is_running (workers p ! i) \<and>
               (\<exists>k err. passes i p = replicate k Returned @ [Escaped err]))"
    if i: "i < length (workers p)" for i
  proof -
    from b i have ok: "worker_ok (workers p ! i) (passes i p)" by (simp add: balanced_def)
    show ?thesis
    proof (cases "crashed (workers p ! i)")
      case True
      with ok show ?thesis by (auto simp: worker_ok_def)
    next
      case nc: False
      show ?thesis
      proof (cases "is_running (workers p ! i)")
        case True
        with nc ok balanced_not_blocked [OF b i True nc, of slugify net] show ?thesis
          by (simp add: worker_ok_def)
      next
        case False
        with nc ok show ?thesis by (auto simp: worker_ok_def)
      qed
    qed
  qed
  have q: "\<forall>w\<in>set (workers p). \<not> crashed w" if "print_errors s = []"
    using quiet_exec [OF quiet_start [OF that] assms(2)] by (simp add: quiet_def)
  from b w q show ?thesis by (simp add: balanced_def)
qed

lemma ex5_pair_run:
  "\<exists>p. exec ex_slugify ex_net [Spawn, Pass 0, Spawn, Pass 1, Pass 0] ex5_pair = Some p \<and>
       to_spawn p = 0 \<and>
       map is_running (workers p) = [False, False] \<and>
       passes 0 p = [Returned, GotSentinel] \<and> passes 1 p = [GotSentinel] \<and>
       queue (shared p) = []"
  by (simp add: ex5_pair_def cli_download_def ex_world_def eval_defs ex_net_def ex_job_def
      ex_response_def ex_slugify_def py_int_6 passes_def)

theorem sentinel_balance_witness:
  "\<exists>p. exec ex_slugify ex_net [Spawn, Pass 0, Spawn, Pass 1, Pass 0] ex5_pair = Some p \<and>
       enqueued p = [Job (ex_job ''intro to x'' ''http://h/a.mp4''), Sentinel, Sentinel] \<and>
       length (workers p) = 2 \<and> to_spawn p = 0 \<and>
       map is_running (workers p) = [False, False] \<and>
       passes 0 p = [Returned, GotSentinel] \<and> passes 1 p = [GotSentinel]"
proof -
  from ex5_pair_run obtain p
    where p: "exec ex_slugify ex_net [Spawn, Pass 0, Spawn, Pass 1, Pass 0] ex5_pair = Some p"
      and f: "to_spawn p = 0" "map is_running (workers p) = [False, False]"
        "passes 0 p = [Returned, GotSentinel]" "passes 1 p = [GotSentinel]"
    by (elim exE conjE) (rule that)
  have s: "stop_after (ex_world Map.empty [] None) = None" by (simp add: ex_world_def)
  have "length (map is_running (workers p)) = 2" by (simp only: f(2)) simp
  then have l: "length (workers p) = 2" by simp
  have r: "replicate 2 Sentinel = [Sentinel, Sentinel]" by (simp add: numeral_2_eq_2)
  from p have p': "exec ex_slugify ex_net [Spawn, Pass 0, Spawn, Pass 1, Pass 0]
      (cli_download [''home''] None 2 [ex_job ''intro to x'' ''http://h/a.mp4'']
         (ex_world Map.empty [] None)) = Some p"
    by (simp only: ex5_pair_def)
  from sentinel_balance [where slugify=ex_slugify and net=ex_net, OF s p']
  have "enqueued p = map Job [ex_job ''intro to x'' ''http://h/a.mp4''] @
      replicate (length (workers p)) Sentinel" by (rule conjunct1)
  then have e: "enqueued p = [Job (ex_job ''intro to x'' ''http://h/a.mp4''), Sentinel, Sentinel]"
    by (simp only: l r) simp
  show ?thesis by (intro exI conjI) (rule p e l f)+
qed

section \<open>The pages of an event set\<close>

lemma get_events_loop_serves:
  assumes "serves api org_id ty pagesize pgs" and "k < length pgs"
  shows "get_events_loop api org_id ty pagesize (int k + 1) acc =
           Some (Inr (acc @ concat (drop k pgs)))"
  using assms(2)
proof (induction "length pgs - k" arbitrary: k acc)
  case 0
  then show ?case by simp
next
  case (Suc n)
  from assms(1) Suc.prems obtain d h
    where g: "get_showmore api org_id (int k + 1) pagesize ty = Inr (d, h)"
      and it: "iterate d = Inr (pgs ! k)" and t: "truthy h = (Suc k < length pgs)"
    unfolding serves_def by blast
  from it have ex: "list_extend acc d = Inr (acc @ pgs ! k)" by (simp add: list_extend_def)
  from Suc.prems have dr: "drop k pgs = pgs ! k # drop (Suc k) pgs"
    by (simp add: Cons_nth_drop_Suc)
  show ?case
  proof (cases "Suc k < length pgs")
    case True
    from Suc.hyps(2) have "n = length pgs - Suc k" by simp
    from Suc.hyps(1) [OF this True, of "acc @ pgs ! k"]
    have ih: "get_events_loop api org_id ty pagesize (int k + 1 + 1) (acc @ pgs ! k) =
        Some (Inr ((acc @ pgs ! k) @ concat (drop (Suc k) pgs)))"
      by (simp add: add.commute)
    have "get_events_loop api org_id ty pagesize (int k + 1) acc =
        get_events_loop api org_id ty pagesize (int k + 1 + 1) (acc @ pgs ! k)"
      by (subst get_events_loop.simps) (simp add: g ex t True)
    with ih dr show ?thesis by simp
  next
    case False
    with Suc.prems have "drop (Suc k) pgs = []" by simp
    with dr False show ?thesis
      by (subst get_events_loop.simps) (simp add: g ex t)
  qed
qed

lemma get_events_serves:
  assumes "serves api org_id ty pagesize pgs"
  shows "get_events api org_id ty pagesize = Some (Inr (concat pgs))"
proof -
  from assms have "0 < length pgs" by (simp add: serves_def)
  from get_events_loop_serves [OF assms this, of "[]"] show ?thesis
    by (simp add: get_events_def)
qed

section \<open>Claim C9: the list of events\<close>

text \<open>
  C9. When the server serves the pages \<open>fut\<close> of the future events and the pages \<open>pst\<close> of
  the past events of the organisation (page 1 first, each page but the last reporting a
  next page), \<open>get_all_events\<close> returns, and what it returns is the events of the future
  pages in page order followed by the events of the past pages in page order, each page's
  events in the order the server gave them; \<open>get_future_events\<close> and \<open>get_past_events\<close>
  return the two parts.
\<close>

theorem get_all_events_future_then_past:
  assumes "serves api org_id ''future'' pagesize fut"
    and "serves api org_id ''past'' pagesize pst"
  shows "get_all_events api org_id pagesize = Some (Inr (concat fut @ concat pst)) \<and>
         get_future_events api org_id pagesize = Some (Inr (concat fut)) \<and>
         get_past_events api org_id pagesize = Some (Inr (concat pst))"
proof -
  from get_events_serves [OF assms(1)]
  have f: "get_future_events api org_id pagesize = Some (Inr (concat fut))"
    by (simp add: get_future_events_def)
  from get_events_serves [OF assms(2)]
  have p: "get_past_events api org_id pagesize = Some (Inr (concat pst))"
    by (simp add: get_past_events_def)
  from f p show ?thesis by (simp add: get_all_events_def)
qed

lemma ex_api_future:
  "serves ex_api ''42'' ''future'' 2 [[ex_event 1, ex_event 2], [ex_event 3]]"
proof -
  have 1: "get_showmore ex_api ''42'' 1 2 ''future'' = Inr (JArr [ex_event 1, ex_event 2], JBool True)"
    by (simp add: get_showmore_def ex_api_def ex_page_def checked_json_def)
  have 2: "get_showmore ex_api ''42'' 2 2 ''future'' = Inr (JArr [ex_event 3], JBool False)"
    by (simp add: get_showmore_def ex_api_def ex_page_def checked_json_def)
  have "\<exists>d h. get_showmore ex_api ''42'' (int k + 1) 2 ''future'' = Inr (d, h) \<and>
         iterate d = Inr ([[ex_event 1, ex_event 2], [ex_event 3]] ! k) \<and>
         truthy h = (Suc k < length [[ex_event 1, ex_event 2], [ex_event 3]])"
    if "k < 2" for k
  proof -
    from that have "k = 0 \<or> k = 1" by auto
    then show ?thesis using 1 2 by auto
  qed
  then show ?thesis by (simp add: serves_def)
qed

lemma ex_api_past: "serves ex_api ''42'' ''past'' 2 [[ex_event 4]]"
proof -
  have 1: "get_showmore ex_api ''42'' 1 2 ''past'' = Inr (JArr [ex_event 4], JBool False)"
    by (simp add: get_showmore_def ex_api_def ex_page_def checked_json_def)
  then show ?thesis by (simp add: serves_def)
qed

theorem get_all_events_future_then_past_witness:
  "get_all_events ex_api ''42'' 2 = Some (Inr [ex_event 1, ex_event 2, ex_event 3, ex_event 4]) \<and>
   get_future_events ex_api ''42'' 2 = Some (Inr [ex_event 1, ex_event 2, ex_event 3]) \<and>
   get_past_events ex_api ''42'' 2 = Some (Inr [ex_event 4])"
  using get_all_events_future_then_past [OF ex_api_future ex_api_past] by simp

section \<open>The registration values, as the specification words them\<close>

lemma dict_get_set:
  "dict_get (dict_set d k v) k' = (if same_key k k' then Some v else dict_get d k')"
  by (induction d k v rule: dict_set.induct) (auto simp: same_key_def)

lemma fields_loop_step:
  assumes "fields_loop (field # rest) email first_name last_name d = Inr vals"
  shows "\<exists>d'. fields_loop rest email first_name last_name d' = Inr vals \<and>
           d' = (case spec_entry email first_name last_name field of
                   None \<Rightarrow> d | Some (k, v) \<Rightarrow> dict_set d k v) \<and>
           (spec_value email first_name last_name field \<noteq> None \<longrightarrow>
              spec_entry email first_name last_name field \<noteq> None)"
proof -
  from assms obtain required where r: "subscript field ''isRequired'' = Inr required"
    by (auto split: sum.splits)
  show ?thesis
  proof (cases "truthy required")
    case False
    with assms r show ?thesis by (simp add: spec_entry_def spec_value_def)
  next
    case True
    with assms r obtain ty where t: "subscript field ''type'' = Inr ty"
      by (auto split: sum.splits)
    show ?thesis
    proof (cases "ty = JStr ''email'' \<or> ty = JStr ''firstName'' \<or> ty = JStr ''lastName''")
      case False
      with assms r True t show ?thesis by (simp add: spec_entry_def spec_value_def)
    next
      case ty: True
      then obtain v where v: "spec_value email first_name last_name field = Some v"
        and l: "fields_loop (field # rest) email first_name last_name d =
          (case set_field d field v of Inl e \<Rightarrow> Inl e
           | Inr d' \<Rightarrow> fields_loop rest email first_name last_name d')"
        using r True t by (auto simp: spec_value_def)
      from l assms obtain d' where s: "set_field d field v = Inr d'"
        and f: "fields_loop rest email first_name last_name d' = Inr vals"
        by (auto split: sum.splits)
      from s obtain k where k: "subscript field ''id'' = Inr k" and d': "d' = dict_set d k v"
        by (auto simp: set_field_def split: sum.splits if_splits)
      from v k d' f show ?thesis by (simp add: spec_entry_def)
    qed
  qed
qed

lemma fields_loop_entries:
  assumes "fields_loop fs0 email first_name last_name d = Inr vals"
  shows "vals = foldl (\<lambda>d kv. dict_set d (fst kv) (snd kv)) d
           (List.map_filter (spec_entry email first_name last_name) fs0)"
  using assms
proof (induction fs0 arbitrary: d)
  case Nil
  then show ?case by (simp add: List.map_filter_simps)
next
  case (Cons field rest)
  from fields_loop_step [OF Cons.prems] obtain d'
    where f: "fields_loop rest email first_name last_name d' = Inr vals"
      and d': "d' = (case spec_entry email first_name last_name field of
                   None \<Rightarrow> d | Some (k, v) \<Rightarrow> dict_set d k v)"
    by blast
  from Cons.IH [OF f] d' show ?case
    by (auto simp: List.map_filter_simps split: option.splits)
qed

lemma in_map_filter: "x \<in> set xs \<Longrightarrow> f x = Some y \<Longrightarrow> y \<in> set (List.map_filter f xs)"
  by (induction xs) (auto split: option.splits)

lemma fields_loop_distinct:
  assumes "fields_loop fs0 email first_name last_name d = Inr vals"
    and "distinct (List.map_filter field_key fs0)"
  shows "(\<forall>field\<in>set fs0. \<forall>k. subscript field ''id'' = Inr k \<longrightarrow>
            dict_get vals k =
              (case spec_value email first_name last_name field of
                 Some v \<Rightarrow> Some v | None \<Rightarrow> dict_get d k)) \<and>
         (\<forall>k. key_norm k \<notin> set (List.map_filter field_key fs0) \<longrightarrow> dict_get vals k = dict_get d k)"
  using assms
proof (induction fs0 arbitrary: d)
  case Nil
  then show ?case by simp
next
  case (Cons field rest)
  from fields_loop_step [OF Cons.prems(1)] obtain d'
    where f: "fields_loop rest email first_name last_name d' = Inr vals"
      and d': "d' = (case spec_entry email first_name last_name field of
                   None \<Rightarrow> d | Some (k, v) \<Rightarrow> dict_set d k v)"
      and sv: "spec_value email first_name last_name field \<noteq> None \<longrightarrow>
              spec_entry email first_name last_name field \<noteq> None"
    by blast
  from Cons.prems(2) have dr: "distinct (List.map_filter field_key rest)"
    by (auto split: option.splits)
  note ih = Cons.IH [OF f dr]
  text \<open>A key that is not the field's own reads the same before and after the field.\<close>
  have other: "dict_get d' k = dict_get d k" if "field_key field \<noteq> Some (key_norm k)" for k
  proof (cases "spec_entry email first_name last_name field")
    case None
    with d' show ?thesis by simp
  next
    case (Some kv)
    obtain k0 v0 where kv: "kv = (k0, v0)" by (cases kv)
    with Some have "subscript field ''id'' = Inr k0"
      by (auto simp: spec_entry_def split: option.splits sum.splits)
    with that have "\<not> same_key k0 k" by (simp add: field_key_def same_key_def)
    with d' Some kv show ?thesis by (simp add: dict_get_set)
  qed
  have own: "dict_get d' k =
      (case spec_value email first_name last_name field of Some v \<Rightarrow> Some v | None \<Rightarrow> dict_get d k)"
    if k: "subscript field ''id'' = Inr k" for k
  proof (cases "spec_value email first_name last_name field")
    case None
    then have "spec_entry email first_name last_name field = None" by (simp add: spec_entry_def)
    with d' None show ?thesis by simp
  next
    case (Some v)
    with k have "spec_entry email first_name last_name field = Some (k, v)"
      by (simp add: spec_entry_def)
    with d' Some show ?thesis by (simp add: dict_get_set same_key_def)
  qed
  have a: "dict_get vals k =
      (case spec_value email first_name last_name g of Some v \<Rightarrow> Some v | None \<Rightarrow> dict_get d k)"
    if g: "g \<in> set (field # rest)" and k: "subscript g ''id'' = Inr k" for g k
  proof (cases "g \<in> set rest")
    case True
    from k have gk: "field_key g = Some (key_norm k)" by (simp add: field_key_def)
    from in_map_filter [where f=field_key, OF True gk] have m: "key_norm k \<in> set (List.map_filter field_key rest)" .
    with Cons.prems(2) have "field_key field \<noteq> Some (key_norm k)"
      by (auto split: option.splits)
    from other [OF this] ih True k show ?thesis by (auto split: option.splits)
  next
    case False
    with g have gf: "g = field" by simp
    with k have fk: "field_key field = Some (key_norm k)" by (simp add: field_key_def)
    with Cons.prems(2) have "key_norm k \<notin> set (List.map_filter field_key rest)"
      by simp
    with ih have "dict_get vals k = dict_get d' k" by blast
    with own [of k] k gf show ?thesis by simp
  qed
  have b: "dict_get vals k = dict_get d k"
    if k: "key_norm k \<notin> set (List.map_filter field_key (field # rest))" for k
  proof -
    from k have 1: "key_norm k \<notin> set (List.map_filter field_key rest)"
      and 2: "field_key field \<noteq> Some (key_norm k)"
      by (auto split: option.splits)
    from ih 1 have "dict_get vals k = dict_get d' k" by blast
    with other [OF 2] show ?thesis by simp
  qed
  from a b show ?case by blast
qed

lemma fields_loop_ids:
  assumes "fields_loop fs0 email first_name last_name d = Inr vals"
  shows "\<forall>field\<in>set fs0. spec_value email first_name last_name field \<noteq> None \<longrightarrow>
           spec_entry email first_name last_name field \<noteq> None"
  using assms
proof (induction fs0 arbitrary: d)
  case Nil
  then show ?case by simp
next
  case (Cons field rest)
  from fields_loop_step [OF Cons.prems] obtain d'
    where f: "fields_loop rest email first_name last_name d' = Inr vals"
      and sv: "spec_value email first_name last_name field \<noteq> None \<longrightarrow>
              spec_entry email first_name last_name field \<noteq> None"
    by blast
  from Cons.IH [OF f] sv show ?case by simp
qed

lemma registration_data_Inr:
  assumes "registration_data u webinar_data email first_name last_name = Inr (registration_url, reg)"
  shows "\<exists>field_list. registration_fields webinar_data = Inr field_list \<and>
           fields_loop field_list email first_name last_name [] = Inr (reg_values reg) \<and>
           reg_email reg = email \<and> reg_firstName reg = first_name \<and> reg_lastName reg = last_name \<and>
           registration_url = ''https://oa-api.streamyard.com/api/public/webinars/''
                                 @ last_segment u @ ''/registrations''"
  using assms
  by (auto simp: registration_data_def registration_fields_def Let_def split: sum.splits)

lemma register_webinar_sent:
  assumes "snd (register_webinar post u webinar_data email first_name last_name) \<noteq> []"
  shows "\<exists>registration_url reg.
           registration_data u webinar_data email first_name last_name =
             Inr (registration_url, reg) \<and>
           snd (register_webinar post u webinar_data email first_name last_name) =
             [(registration_url, reg)] \<and>
           fst (register_webinar post u webinar_data email first_name last_name) =
             (case post registration_url reg of Inl e \<Rightarrow> Inl e | Inr r \<Rightarrow> checked_json r)"
  using assms by (auto simp: register_webinar_def split: sum.splits)

lemma register_webinar_returns:
  "fst (register_webinar post u webinar_data email first_name last_name) = Inr j \<Longrightarrow>
   snd (register_webinar post u webinar_data email first_name last_name) \<noteq> []"
  by (auto simp: register_webinar_def split: sum.splits)

section \<open>Claim C10: the registration fields\<close>

text \<open>
  C10. When \<open>register_webinar\<close> sends a request, it sends one request, to the
  registrations of the webinar named by the last segment of the URL, and the result of the
  method is what the answer to that request gives. The body of the request carries the
  email, the first name and the last name, and its values are built from the fields of
  the first registration field definition, in order: a field adds an entry under its id
  if and only if it is required and its type is \<open>email\<close>, \<open>firstName\<close> or \<open>lastName\<close>, and
  the value of the entry is the email, the first name or the last name. The values are a
  dict, so with ids that are pairwise different they have, under the id of each field,
  the value the field receives if it is such a field, and no entry otherwise.
\<close>

theorem registration_values_follow_field_types:
  assumes "snd (register_webinar post u webinar_data email first_name last_name) \<noteq> []"
  shows "\<exists>field_list reg.
           snd (register_webinar post u webinar_data email first_name last_name) =
             [(''https://oa-api.streamyard.com/api/public/webinars/'' @ last_segment u
                 @ ''/registrations'', reg)] \<and>
           fst (register_webinar post u webinar_data email first_name last_name) =
             (case post (''https://oa-api.streamyard.com/api/public/webinars/'' @ last_segment u
                           @ ''/registrations'') reg of
                Inl e \<Rightarrow> Inl e | Inr r \<Rightarrow> checked_json r) \<and>
           reg_email reg = email \<and> reg_firstName reg = first_name \<and>
           reg_lastName reg = last_name \<and>
           registration_fields webinar_data = Inr field_list \<and>
           reg_values reg =
             foldl (\<lambda>d kv. dict_set d (fst kv) (snd kv)) []
               (List.map_filter (spec_entry email first_name last_name) field_list) \<and>
           (\<forall>field\<in>set field_list.
               (spec_entry email first_name last_name field \<noteq> None) =
               (spec_value email first_name last_name field \<noteq> None)) \<and>
           (distinct (List.map_filter field_key field_list) \<longrightarrow>
              (\<forall>field\<in>set field_list. \<forall>k. subscript field ''id'' = Inr k \<longrightarrow>
                  dict_get (reg_values reg) k = spec_value email first_name last_name field))"
proof -
  from register_webinar_sent [OF assms] obtain registration_url reg
    where rd: "registration_data u webinar_data email first_name last_name =
        Inr (registration_url, reg)"
      and sent: "snd (register_webinar post u webinar_data email first_name last_name) =
        [(registration_url, reg)]"
      and res: "fst (register_webinar post u webinar_data email first_name last_name) =
        (case post registration_url reg of Inl e \<Rightarrow> Inl e | Inr r \<Rightarrow> checked_json r)"
    by blast
  from registration_data_Inr [OF rd] obtain field_list
    where fl: "registration_fields webinar_data = Inr field_list"
      and lp: "fields_loop field_list email first_name last_name [] = Inr (reg_values reg)"
      and id: "reg_email reg = email" "reg_firstName reg = first_name"
        "reg_lastName reg = last_name"
      and ru: "registration_url = ''https://oa-api.streamyard.com/api/public/webinars/''
                                 @ last_segment u @ ''/registrations''"
    by blast
  note 1 = fields_loop_entries [OF lp]
  have 2: "\<forall>field\<in>set field_list.
               (spec_entry email first_name last_name field \<noteq> None) =
               (spec_value email first_name last_name field \<noteq> None)"
  proof
    fix field assume f: "field \<in> set field_list"
    have "spec_entry email first_name last_name field \<noteq> None \<Longrightarrow>
        spec_value email first_name last_name field \<noteq> None"
      by (cases "spec_value email first_name last_name field") (simp_all add: spec_entry_def)
    with fields_loop_ids [OF lp] f
    show "(spec_entry email first_name last_name field \<noteq> None) =
               (spec_value email first_name last_name field \<noteq> None)"
      by blast
  qed
  have 3: "\<forall>field\<in>set field_list. \<forall>k. subscript field ''id'' = Inr k \<longrightarrow>
                  dict_get (reg_values reg) k = spec_value email first_name last_name field"
    if "distinct (List.map_filter field_key field_list)"
    using fields_loop_distinct [OF lp that] by (auto split: option.splits)
  from sent ru
  have s: "snd (register_webinar post u webinar_data email first_name last_name) =
             [(''https://oa-api.streamyard.com/api/public/webinars/'' @ last_segment u
                 @ ''/registrations'', reg)]"
    by simp
  from res ru
  have r: "fst (register_webinar post u webinar_data email first_name last_name) =
             (case post (''https://oa-api.streamyard.com/api/public/webinars/'' @ last_segment u
                           @ ''/registrations'') reg of
                Inl e \<Rightarrow> Inl e | Inr r \<Rightarrow> checked_json r)"
    by simp
  show ?thesis
    by (intro exI [of _ field_list] exI [of _ reg] conjI impI)
       (rule s r id fl 1 2 3, assumption?)+
qed

lemma ex_registration:
  "registration_data ''https://streamyard.com/watch/abc123'' ex_webinar ''a@b.c'' ''Ada'' ''Lovelace'' =
     Inr (''https://oa-api.streamyard.com/api/public/webinars/abc123/registrations'', ex_reg)"
  by (simp add: registration_data_def first_definition_def ex_webinar_def ex_field_list_def
      ex_field_def last_segment_def set_field_def same_key_def Let_def ex_reg_def)

lemma ex_register:
  "register_webinar ex_post ''https://streamyard.com/watch/abc123'' ex_webinar
     ''a@b.c'' ''Ada'' ''Lovelace'' =
   (Inr (JObj [(''status'', JStr ''registered'')]),
    [(''https://oa-api.streamyard.com/api/public/webinars/abc123/registrations'', ex_reg)])"
  by (simp add: register_webinar_def ex_registration ex_post_def checked_json_def)

lemma ex_registration_fields: "registration_fields ex_webinar = Inr ex_field_list"
  by (simp add: registration_fields_def first_definition_def ex_webinar_def)

lemma ex_field_keys: "distinct (List.map_filter field_key ex_field_list)"
  by (simp add: ex_field_list_def ex_field_def field_key_def)

lemma ex_spec_values:
  "spec_value ''a@b.c'' ''Ada'' ''Lovelace'' (ex_field ''f1'' True ''email'') = Some ''a@b.c''"
  "spec_value ''a@b.c'' ''Ada'' ''Lovelace'' (ex_field ''f2'' True ''firstName'') = Some ''Ada''"
  "spec_value ''a@b.c'' ''Ada'' ''Lovelace'' (ex_field ''f3'' False ''lastName'') = None"
  "spec_value ''a@b.c'' ''Ada'' ''Lovelace'' (ex_field ''f4'' True ''phone'') = None"
  "spec_value ''a@b.c'' ''Ada'' ''Lovelace'' (ex_field ''f5'' True ''lastName'') = Some ''Lovelace''"
  by (simp_all add: spec_value_def ex_field_def)

theorem registration_values_follow_field_types_witness:
  "register_webinar ex_post ''https://streamyard.com/watch/abc123'' ex_webinar
     ''a@b.c'' ''Ada'' ''Lovelace'' =
   (Inr (JObj [(''status'', JStr ''registered'')]),
    [(''https://oa-api.streamyard.com/api/public/webinars/abc123/registrations'', ex_reg)]) \<and>
   reg_email ex_reg = ''a@b.c'' \<and> reg_firstName ex_reg = ''Ada'' \<and>
   reg_lastName ex_reg = ''Lovelace'' \<and>
   dict_get (reg_values ex_reg) (JStr ''f1'') = Some ''a@b.c'' \<and>
   dict_get (reg_values ex_reg) (JStr ''f2'') = Some ''Ada'' \<and>
   dict_get (reg_values ex_reg) (JStr ''f3'') = None \<and>
   dict_get (reg_values ex_reg) (JStr ''f4'') = None \<and>
   dict_get (reg_values ex_reg) (JStr ''f5'') = Some ''Lovelace''"
proof -
  have ne: "snd (register_webinar ex_post ''https://streamyard.com/watch/abc123'' ex_webinar
     ''a@b.c'' ''Ada'' ''Lovelace'') \<noteq> []"
    by (simp add: ex_register)
  from registration_values_follow_field_types [OF ne] obtain field_list reg
    where sent: "snd (register_webinar ex_post ''https://streamyard.com/watch/abc123'' ex_webinar
        ''a@b.c'' ''Ada'' ''Lovelace'') =
        [(''https://oa-api.streamyard.com/api/public/webinars/'' @
          last_segment ''https://streamyard.com/watch/abc123'' @ ''/registrations'', reg)]"
      and id: "reg_email reg = ''a@b.c''" "reg_firstName reg = ''Ada''"
        "reg_lastName reg = ''Lovelace''"
      and fl: "registration_fields ex_webinar = Inr field_list"
      and d: "distinct (List.map_filter field_key field_list) \<longrightarrow>
              (\<forall>field\<in>set field_list. \<forall>k. subscript field ''id'' = Inr k \<longrightarrow>
                  dict_get (reg_values reg) k = spec_value ''a@b.c'' ''Ada'' ''Lovelace'' field)"
    by (elim exE conjE) (rule that)
  from sent have reg: "reg = ex_reg" by (simp add: ex_register)
  from fl have fle: "field_list = ex_field_list" by (simp add: ex_registration_fields)
  from d ex_field_keys
  have a: "\<forall>field\<in>set ex_field_list. \<forall>k. subscript field ''id'' = Inr k \<longrightarrow>
      dict_get (reg_values ex_reg) k = spec_value ''a@b.c'' ''Ada'' ''Lovelace'' field"
    by (simp add: reg fle)
  have m: "ex_field i r t \<in> set ex_field_list \<Longrightarrow>
      dict_get (reg_values ex_reg) (JStr i) = spec_value ''a@b.c'' ''Ada'' ''Lovelace'' (ex_field i r t)"
    for i r t
  proof -
    assume "ex_field i r t \<in> set ex_field_list"
    moreover have "subscript (ex_field i r t) ''id'' = Inr (JStr i)" by (simp add: ex_field_def)
    ultimately show ?thesis using a by blast
  qed
  have 1: "dict_get (reg_values ex_reg) (JStr ''f1'') = Some ''a@b.c''"
    using m [of "''f1''" True "''email''"] by (simp add: ex_field_list_def ex_spec_values)
  have 2: "dict_get (reg_values ex_reg) (JStr ''f2'') = Some ''Ada''"
    using m [of "''f2''" True "''firstName''"] by (simp add: ex_field_list_def ex_spec_values)
  have 3: "dict_get (reg_values ex_reg) (JStr ''f3'') = None"
    using m [of "''f3''" False "''lastName''"] by (simp add: ex_field_list_def ex_spec_values)
  have 4: "dict_get (reg_values ex_reg) (JStr ''f4'') = None"
    using m [of "''f4''" True "''phone''"] by (simp add: ex_field_list_def ex_spec_values)
  have 5: "dict_get (reg_values ex_reg) (JStr ''f5'') = Some ''Lovelace''"
    using m [of "''f5''" True "''lastName''"] by (simp add: ex_field_list_def ex_spec_values)
  from id have ids: "reg_email ex_reg = ''a@b.c''" "reg_firstName ex_reg = ''Ada''"
    "reg_lastName ex_reg = ''Lovelace''"
    by (simp_all add: reg)
  show ?thesis by (intro conjI) (rule ex_register ids 1 2 3 4 5)+
qed

end
